theory Spec2Isabelle
  imports Main "HOL-Library.Sublist"
begin

section \<open>The entity model (frontend/src/lib/api.ts)\<close>

text \<open>
  \<open>ParsedFunction\<close> and \<open>ParsedClass\<close> are TypeScript interfaces that share the fields
  \<open>name\<close> and \<open>docstring\<close>; the component's \<open>NodeData\<close> interface is their structural
  union. The shared fields form the base record, so that \<open>name\<close> reads either payload.
  JavaScript strings are modelled as \<open>string\<close>, a character standing for one unit of
  the string; \<open>string | null\<close> and optional fields are \<open>string option\<close> (the code only
  ever tests such a field for truthiness).
\<close>

record Named =
  name :: string
  docstring :: "string option"

record ParsedFunction = Named +
  args :: "string list"
  returns :: "string option"

record ParsedClass = Named +
  bases :: "string list"
  methods :: "ParsedFunction list"

datatype RelationshipType = function_call | method_call | attribute_access

record Relationship =
  caller :: "string option"
  callee :: "string option"
  object :: "string option"
  method' :: "string option"
  attribute :: "string option"
  rel_type :: RelationshipType

record Relationships =
  function_calls :: "Relationship list"
  class_inheritance :: "Relationship list"
  method_calls :: "Relationship list"
  attribute_access_list :: "Relationship list"

text \<open>
  The props of the \<open>KnowledgeGraph\<close> component. \<open>relationships\<close> is optional and defaults
  to four empty collections. The \<open>metrics\<close> prop is not read by the transformation and is
  left out. The field \<open>functions\<close> is primed, the plain name being an Isabelle keyword.
\<close>

record KnowledgeGraphProps =
  functions' :: "ParsedFunction list"
  classes :: "ParsedClass list"
  relationships :: "Relationships option"

text \<open>The component state read by \<open>transformDataToGraph\<close> (the \<open>useState\<close> cells).\<close>

record FilterState =
  searchTerm :: string
  showFunctions :: bool
  showClasses :: bool
  showMethods :: bool
  showRelationships :: bool

section \<open>The graph (KnowledgeGraph component)\<close>

datatype NodeType = Function | Class | Method

datatype EdgeType = Calls | Inherits | Contains

datatype NodeData = FunctionData ParsedFunction | ClassData ParsedClass

text \<open>
  \<open>GraphNode\<close> and \<open>GraphEdge\<close> are \<open>{ data: { ... } }\<close> in the source; the single
  wrapper field is flattened away. \<open>id\<close> and \<open>type\<close> are prefixed since \<open>id\<close> is a HOL
  constant.
\<close>

record GraphNode =
  node_id :: string
  label :: string
  node_type :: NodeType
  nodeData :: NodeData

record GraphEdge =
  edge_id :: string
  source :: string
  target :: string
  edge_type :: EdgeType

text \<open>
  The result \<open>{ nodes, edges }\<close>, and the three locals of \<open>transformDataToGraph\<close>:
  the two arrays and \<open>nodeMap\<close>, the \<open>Map\<close> from display name to node id.
\<close>

record Graph =
  nodes :: "GraphNode list"
  edges :: "GraphEdge list"

record BuildState = Graph +
  nodeMap :: "string \<rightharpoonup> string"

fun nodeData_name :: "NodeData \<Rightarrow> string" where
  "nodeData_name (FunctionData f) = name f"
| "nodeData_name (ClassData c) = name c"

section \<open>String helpers\<close>

text \<open>
  \<open>String.prototype.toLowerCase\<close> is a built-in of the language, with the full Unicode
  case mapping behind it. It is not modelled: every definition that reaches the name
  filter takes the case mapping as its first argument, named \<open>toLowerCase\<close>, and every
  property below is proved for an arbitrary such function.
\<close>

text \<open>\<open>s.includes(t)\<close>: \<open>t\<close> occurs in \<open>s\<close> as a contiguous substring.\<close>

fun includesStr :: "string \<Rightarrow> string \<Rightarrow> bool" where
  "includesStr [] t = (t = [])"
| "includesStr (c # s) t = (prefix t (c # s) \<or> includesStr s t)"

text \<open>Template-literal formatting of an array index: its decimal digits.\<close>

definition digit :: "nat \<Rightarrow> char" where
  "digit d = char_of (48 + d)"

fun showNat :: "nat \<Rightarrow> string" where
  "showNat n = (if n < 10 then [digit n] else showNat (n div 10) @ [digit (n mod 10)])"

declare showNat.simps [simp del]

text \<open>
  The name filter \<open>!searchTerm || x.name.toLowerCase().includes(searchTerm.toLowerCase())\<close>;
  the empty string is falsy.
\<close>

definition matchesSearch :: "(string \<Rightarrow> string) \<Rightarrow> string \<Rightarrow> string \<Rightarrow> bool" where
  "matchesSearch toLowerCase needle nm = (needle = [] \<or> includesStr (toLowerCase nm) (toLowerCase needle))"

section \<open>transformDataToGraph\<close>

text \<open>\<open>xs.forEach((x, index) => ...)\<close>, threading the mutated locals as a state.\<close>

fun forEach :: "('a \<Rightarrow> nat \<Rightarrow> 's \<Rightarrow> 's) \<Rightarrow> nat \<Rightarrow> 'a list \<Rightarrow> 's \<Rightarrow> 's" where
  "forEach f i [] st = st"
| "forEach f i (x # xs) st = forEach f (Suc i) xs (f x i st)"

definition funcId :: "nat \<Rightarrow> string" where
  "funcId index = ''func-'' @ showNat index"

definition classId :: "nat \<Rightarrow> string" where
  "classId classIndex = ''class-'' @ showNat classIndex"

definition methodId :: "nat \<Rightarrow> nat \<Rightarrow> string" where
  "methodId classIndex methodIndex =
     ''method-'' @ showNat classIndex @ ''-'' @ showNat methodIndex"

definition baseStubId :: "string \<Rightarrow> string" where
  "baseStubId base = ''base-'' @ base"

definition functionNode :: "nat \<Rightarrow> ParsedFunction \<Rightarrow> GraphNode" where
  "functionNode index func =
     \<lparr>node_id = funcId index, label = name func, node_type = Function,
      nodeData = FunctionData func\<rparr>"

definition classNode :: "nat \<Rightarrow> ParsedClass \<Rightarrow> GraphNode" where
  "classNode classIndex cls =
     \<lparr>node_id = classId classIndex, label = name cls, node_type = Class,
      nodeData = ClassData cls\<rparr>"

definition methodNode :: "nat \<Rightarrow> nat \<Rightarrow> ParsedFunction \<Rightarrow> GraphNode" where
  "methodNode classIndex methodIndex meth =
     \<lparr>node_id = methodId classIndex methodIndex, label = name meth, node_type = Method,
      nodeData = FunctionData meth\<rparr>"

definition stubNode :: "string \<Rightarrow> string \<Rightarrow> GraphNode" where
  "stubNode baseId base =
     \<lparr>node_id = baseId, label = base, node_type = Class,
      nodeData = ClassData \<lparr>name = base, docstring = None, bases = [], methods = []\<rparr>\<rparr>"

definition containsEdge :: "string \<Rightarrow> string \<Rightarrow> GraphEdge" where
  "containsEdge cid mid =
     \<lparr>edge_id = ''edge-'' @ cid @ ''-'' @ mid, source = cid, target = mid,
      edge_type = Contains\<rparr>"

definition inheritsEdge :: "string \<Rightarrow> string \<Rightarrow> nat \<Rightarrow> GraphEdge" where
  "inheritsEdge cid baseId baseIndex =
     \<lparr>edge_id = ''inherit-'' @ cid @ ''-'' @ baseId @ ''-'' @ showNat baseIndex,
      source = cid, target = baseId, edge_type = Inherits\<rparr>"

definition callId :: "nat \<Rightarrow> string" where
  "callId index = ''call-'' @ showNat index"

definition callEdge :: "nat \<Rightarrow> string \<Rightarrow> string \<Rightarrow> GraphEdge" where
  "callEdge index callerId calleeId =
     \<lparr>edge_id = callId index, source = callerId, target = calleeId,
      edge_type = Calls\<rparr>"

definition methodCallEdge :: "nat \<Rightarrow> string \<Rightarrow> string \<Rightarrow> GraphEdge" where
  "methodCallEdge index objectId methodNodeId =
     \<lparr>edge_id = ''method-call-'' @ showNat index, source = objectId, target = methodNodeId,
      edge_type = Calls\<rparr>"

text \<open>Lines 92-108: the callback of \<open>functions.forEach\<close>.\<close>

definition addFunction :: "(string \<Rightarrow> string) \<Rightarrow> string \<Rightarrow> ParsedFunction \<Rightarrow> nat \<Rightarrow> BuildState \<Rightarrow> BuildState" where
  "addFunction toLowerCase needle func index st =
     (if matchesSearch toLowerCase needle (name func)
      then st\<lparr>nodes := nodes st @ [functionNode index func],
              nodeMap := (nodeMap st)(name func \<mapsto> funcId index)\<rparr>
      else st)"

text \<open>Lines 131-156: the callback of \<open>cls.methods.forEach\<close>.\<close>

definition addMethod ::
  "(string \<Rightarrow> string) \<Rightarrow> string \<Rightarrow> nat \<Rightarrow> ParsedFunction \<Rightarrow> nat \<Rightarrow> BuildState \<Rightarrow> BuildState" where
  "addMethod toLowerCase needle classIndex meth methodIndex st =
     (if matchesSearch toLowerCase needle (name meth)
      then st\<lparr>nodes := nodes st @ [methodNode classIndex methodIndex meth],
              edges := edges st @
                [containsEdge (classId classIndex) (methodId classIndex methodIndex)]\<rparr>
      else st)"

text \<open>
  Lines 161-187: the callback of \<open>cls.bases.forEach\<close>.
  \<open>nodeMap.get(base) || `base-${base}`\<close> falls back to the stub id when the name is
  unregistered or registered with an empty (falsy) id.
\<close>

definition resolveBaseId :: "(string \<rightharpoonup> string) \<Rightarrow> string \<Rightarrow> string" where
  "resolveBaseId m base =
     (case m base of
        Some v \<Rightarrow> if v \<noteq> [] then v else baseStubId base
      | None \<Rightarrow> baseStubId base)"

definition addBase :: "nat \<Rightarrow> string \<Rightarrow> nat \<Rightarrow> BuildState \<Rightarrow> BuildState" where
  "addBase classIndex base baseIndex st =
     (let baseId = resolveBaseId (nodeMap st) base;
          st1 = (if find (\<lambda>n. node_id n = baseId) (nodes st) = None
                 then st\<lparr>nodes := nodes st @ [stubNode baseId base],
                         nodeMap := (nodeMap st)(base \<mapsto> baseId)\<rparr>
                 else st)
      in st1\<lparr>edges := edges st1 @ [inheritsEdge (classId classIndex) baseId baseIndex]\<rparr>)"

text \<open>Lines 113-190: the callback of \<open>classes.forEach\<close>.\<close>

definition addClass :: "(string \<Rightarrow> string) \<Rightarrow> FilterState \<Rightarrow> ParsedClass \<Rightarrow> nat \<Rightarrow> BuildState \<Rightarrow> BuildState" where
  "addClass toLowerCase fs cls classIndex st =
     (if matchesSearch toLowerCase (searchTerm fs) (name cls)
      then
        (let st1 = st\<lparr>nodes := nodes st @ [classNode classIndex cls],
                      nodeMap := (nodeMap st)(name cls \<mapsto> classId classIndex)\<rparr>;
             st2 = (if showMethods fs
                    then forEach (addMethod toLowerCase (searchTerm fs) classIndex) 0 (methods cls) st1
                    else st1)
         in if length (bases cls) > 0
            then forEach (addBase classIndex) 0 (bases cls) st2
            else st2)
      else st)"

text \<open>Truthiness of an optional string: present and non-empty.\<close>

definition truthy :: "string option \<Rightarrow> bool" where
  "truthy v = (case v of None \<Rightarrow> False | Some s \<Rightarrow> s \<noteq> [])"

text \<open>Lines 195-213: the callback of \<open>relationships.function_calls.forEach\<close>.\<close>

definition addFunctionCall :: "Relationship \<Rightarrow> nat \<Rightarrow> BuildState \<Rightarrow> BuildState" where
  "addFunctionCall call index st =
     (case callee call of
        None \<Rightarrow> st
      | Some ce \<Rightarrow>
          if ce \<noteq> [] \<and> nodeMap st ce \<noteq> None
          then
            (let callerId =
                   (case caller call of
                      None \<Rightarrow> None
                    | Some cr \<Rightarrow> if cr \<noteq> [] \<and> nodeMap st cr \<noteq> None
                                then nodeMap st cr else None);
                 calleeId = nodeMap st ce
             in if truthy callerId \<and> truthy calleeId \<and> callerId \<noteq> calleeId
                then st\<lparr>edges := edges st @ [callEdge index (the callerId) (the calleeId)]\<rparr>
                else st)
          else st)"

text \<open>Lines 215-235: the callback of \<open>relationships.method_calls.forEach\<close>.\<close>

definition addMethodCall :: "Relationship \<Rightarrow> nat \<Rightarrow> BuildState \<Rightarrow> BuildState" where
  "addMethodCall call index st =
     (case (object call, method' call) of
        (Some ob, Some me) \<Rightarrow>
          if ob \<noteq> [] \<and> me \<noteq> [] \<and> nodeMap st ob \<noteq> None
          then
            (let objectId = nodeMap st ob;
                 methodNodeOpt =
                   find (\<lambda>n. node_type n = Method \<and> nodeData_name (nodeData n) = me \<and>
                              includesStr (node_id n) ''method-'') (nodes st)
             in case methodNodeOpt of
                  Some mn \<Rightarrow>
                    if truthy objectId
                    then st\<lparr>edges := edges st @ [methodCallEdge index (the objectId) (node_id mn)]\<rparr>
                    else st
                | None \<Rightarrow> st)
          else st
      | _ \<Rightarrow> st)"

definition defaultRelationships :: Relationships where
  "defaultRelationships =
     \<lparr>function_calls = [], class_inheritance = [], method_calls = [],
      attribute_access_list = []\<rparr>"

definition relationshipsOf :: "KnowledgeGraphProps \<Rightarrow> Relationships" where
  "relationshipsOf props =
     (case relationships props of None \<Rightarrow> defaultRelationships | Some r \<Rightarrow> r)"

definition emptyState :: BuildState where
  "emptyState = \<lparr>nodes = [], edges = [], nodeMap = Map.empty\<rparr>"

text \<open>Lines 86-191: the two entity passes, which fill \<open>nodes\<close>, \<open>nodeMap\<close> and the
  structural edges.\<close>

definition buildEntities :: "(string \<Rightarrow> string) \<Rightarrow> KnowledgeGraphProps \<Rightarrow> FilterState \<Rightarrow> BuildState" where
  "buildEntities toLowerCase props fs =
     (let st1 = (if showFunctions fs
                 then forEach (addFunction toLowerCase (searchTerm fs)) 0 (functions' props) emptyState
                 else emptyState)
      in if showClasses fs
         then forEach (addClass toLowerCase fs) 0 (classes props) st1
         else st1)"

text \<open>Lines 194-237: the relationship passes.\<close>

definition addRelationships :: "KnowledgeGraphProps \<Rightarrow> FilterState \<Rightarrow> BuildState \<Rightarrow> BuildState" where
  "addRelationships props fs st =
     (if showRelationships fs
      then forEach addMethodCall 0 (method_calls (relationshipsOf props))
             (forEach addFunctionCall 0 (function_calls (relationshipsOf props)) st)
      else st)"

definition transformDataToGraph :: "(string \<Rightarrow> string) \<Rightarrow> KnowledgeGraphProps \<Rightarrow> FilterState \<Rightarrow> Graph" where
  "transformDataToGraph toLowerCase props fs =
     (let st = addRelationships props fs (buildEntities toLowerCase props fs)
      in \<lparr>nodes = nodes st, edges = edges st\<rparr>)"

section \<open>Definitions used to state and prove the properties\<close>

text \<open>Reading a decimal numeral back: the left inverse of \<open>showNat\<close>.\<close>

definition digitVal :: "char \<Rightarrow> nat" where
  "digitVal c = of_char c - 48"

definition readNat :: "string \<Rightarrow> nat" where
  "readNat s = foldl (\<lambda>a c. 10 * a + digitVal c) 0 s"

text \<open>
  The shape of a node the build can produce: its id prefix agrees with its kind, and a
  class-kind node without a \<open>class-\<close> id is the synthetic stub of its label.
\<close>

definition nodeWf :: "GraphNode \<Rightarrow> bool" where
  "nodeWf n =
     (case node_type n of
        Function \<Rightarrow> prefix ''func-'' (node_id n)
      | Method \<Rightarrow> prefix ''method-'' (node_id n)
      | Class \<Rightarrow> prefix ''class-'' (node_id n) \<or>
                 n = stubNode (baseStubId (label n)) (label n))"

text \<open>
  The invariant tying \<open>nodeMap\<close> to \<open>nodes\<close>: every node is well formed, every registered
  id is the id of a non-method node of the list, and a stub id occurs at most once and
  only for a registered name.
\<close>

definition registryInv :: "BuildState \<Rightarrow> bool" where
  "registryInv st =
     ((\<forall>n \<in> set (nodes st). nodeWf n) \<and>
      (\<forall>k v. nodeMap st k = Some v \<longrightarrow>
         (\<exists>n \<in> set (nodes st). node_id n = v \<and> node_type n \<noteq> Method)) \<and>
      (\<forall>b. length (filter (\<lambda>n. node_id n = baseStubId b) (nodes st)) \<le>
         (case nodeMap st b of None \<Rightarrow> 0 | Some v \<Rightarrow> 1)))"

text \<open>The state after the function pass (lines 91-109), before the class pass.\<close>

definition functionPass :: "(string \<Rightarrow> string) \<Rightarrow> KnowledgeGraphProps \<Rightarrow> FilterState \<Rightarrow> BuildState" where
  "functionPass toLowerCase props fs =
     (if showFunctions fs
      then forEach (addFunction toLowerCase (searchTerm fs)) 0 (functions' props) emptyState
      else emptyState)"

text \<open>
  The entities that get a node: functions and classes that pass the kind flag and the
  name filter.
\<close>

definition visibleFunctions :: "(string \<Rightarrow> string) \<Rightarrow> KnowledgeGraphProps \<Rightarrow> FilterState \<Rightarrow> ParsedFunction list" where
  "visibleFunctions toLowerCase props fs =
     (if showFunctions fs
      then filter (\<lambda>f. matchesSearch toLowerCase (searchTerm fs) (name f)) (functions' props)
      else [])"

definition visibleClasses :: "(string \<Rightarrow> string) \<Rightarrow> KnowledgeGraphProps \<Rightarrow> FilterState \<Rightarrow> ParsedClass list" where
  "visibleClasses toLowerCase props fs =
     (if showClasses fs
      then filter (\<lambda>c. matchesSearch toLowerCase (searchTerm fs) (name c)) (classes props)
      else [])"

text \<open>
  The endpoints of a \<open>function_calls\<close> record as the specification words them: the callee
  is non-empty and resolvable in the registry, the caller is present (not null, not empty)
  and resolvable, and the two resolved ids differ.
\<close>

definition resolvableCall :: "(string \<rightharpoonup> string) \<Rightarrow> Relationship \<Rightarrow> (string \<times> string) option" where
  "resolvableCall reg call =
     (case callee call of
        None \<Rightarrow> None
      | Some ce \<Rightarrow>
          (case caller call of
             None \<Rightarrow> None
           | Some cr \<Rightarrow>
               (case (reg cr, reg ce) of
                  (Some callerId, Some calleeId) \<Rightarrow>
                    if ce \<noteq> [] \<and> cr \<noteq> [] \<and> callerId \<noteq> calleeId
                    then Some (callerId, calleeId) else None
                | _ \<Rightarrow> None)))"

text \<open>The edges one \<open>function_calls\<close> record contributes, given the registry.\<close>

definition callEdgesOf :: "(string \<rightharpoonup> string) \<Rightarrow> nat \<Rightarrow> Relationship \<Rightarrow> GraphEdge list" where
  "callEdgesOf reg i call =
     (case resolvableCall reg call of Some (a, b) \<Rightarrow> [callEdge i a b] | None \<Rightarrow> [])"

text \<open>Every edge of the state starts and ends at a node of the state.\<close>

definition edgesResolved :: "BuildState \<Rightarrow> bool" where
  "edgesResolved st =
     (\<forall>e \<in> set (edges st).
        source e \<in> node_id ` set (nodes st) \<and> target e \<in> node_id ` set (nodes st))"

text \<open>
  The registry entry of a base name \<open>u\<close> that no class bears: unregistered, or registered
  to its stub; \<open>r\<close> tells that the stub must exist already.
\<close>

definition stubState :: "string \<Rightarrow> bool \<Rightarrow> BuildState \<Rightarrow> bool" where
  "stubState u r st =
     (registryInv st \<and>
      (nodeMap st u = Some (baseStubId u) \<or> (\<not> r \<and> nodeMap st u = None)))"

text \<open>
  The name filter in the specification's words: the name contains the search term under
  case-insensitive substring comparison, that is, some contiguous part of the case-folded
  name is the case-folded term.
\<close>

definition containsCaseInsensitive :: "(string \<Rightarrow> string) \<Rightarrow> string \<Rightarrow> string \<Rightarrow> bool" where
  "containsCaseInsensitive toLowerCase needle nm = sublist (toLowerCase needle) (toLowerCase nm)"

section \<open>Sample inputs\<close>

text \<open>
  The case mapping used with the sample inputs, whose names are ASCII: \<open>A\<close>..\<open>Z\<close> go to
  \<open>a\<close>..\<open>z\<close> and every other character is kept, as \<open>String.prototype.toLowerCase\<close> does
  on ASCII strings.
\<close>

definition asciiLowerChar :: "char \<Rightarrow> char" where
  "asciiLowerChar c =
     (let n = (of_char c :: nat) in if 65 \<le> n \<and> n \<le> 90 then char_of (n + 32) else c)"

definition asciiLower :: "string \<Rightarrow> string" where
  "asciiLower s = map asciiLowerChar s"

text \<open>Builders for the concrete entity models on which the properties are exercised.\<close>

definition fnNamed :: "string \<Rightarrow> ParsedFunction" where
  "fnNamed n = \<lparr>name = n, docstring = None, args = [], returns = None\<rparr>"

definition clsNamed :: "string \<Rightarrow> string list \<Rightarrow> ParsedFunction list \<Rightarrow> ParsedClass" where
  "clsNamed n bs ms = \<lparr>name = n, docstring = None, bases = bs, methods = ms\<rparr>"

definition functionCallRecord :: "string \<Rightarrow> string \<Rightarrow> Relationship" where
  "functionCallRecord a b =
     \<lparr>caller = Some a, callee = Some b, object = None, method' = None, attribute = None,
      rel_type = function_call\<rparr>"

definition methodCallRecord :: "string \<Rightarrow> string \<Rightarrow> Relationship" where
  "methodCallRecord ob me =
     \<lparr>caller = None, callee = None, object = Some ob, method' = Some me, attribute = None,
      rel_type = method_call\<rparr>"

definition callsOnly :: "Relationship list \<Rightarrow> Relationship list \<Rightarrow> Relationships" where
  "callsOnly fcs mcs =
     \<lparr>function_calls = fcs, class_inheritance = [], method_calls = mcs,
      attribute_access_list = []\<rparr>"

definition allVisible :: "string \<Rightarrow> FilterState" where
  "allVisible needle =
     \<lparr>searchTerm = needle, showFunctions = True, showClasses = True, showMethods = True,
      showRelationships = True\<rparr>"

text \<open>Functions \<open>f\<close> and \<open>g\<close>, no class, one call from \<open>f\<close> to \<open>g\<close>.\<close>

definition scenarioCalls :: KnowledgeGraphProps where
  "scenarioCalls =
     \<lparr>functions' = [fnNamed ''f'', fnNamed ''g''], classes = [],
      relationships = Some (callsOnly [functionCallRecord ''f'' ''g''] [])\<rparr>"

text \<open>One class \<open>B\<close> with base \<open>A\<close> and method \<open>m\<close>; no relationships given.\<close>

definition scenarioClass :: KnowledgeGraphProps where
  "scenarioClass =
     \<lparr>functions' = [], classes = [clsNamed ''B'' [''A''] [fnNamed ''m'']],
      relationships = None\<rparr>"

text \<open>One class \<open>A\<close> with base \<open>Unknown\<close>, and nothing else.\<close>

definition scenarioStub :: KnowledgeGraphProps where
  "scenarioStub =
     \<lparr>functions' = [], classes = [clsNamed ''A'' [''Unknown''] []], relationships = None\<rparr>"

text \<open>The same class beside a top-level function that is itself named \<open>Unknown\<close>.\<close>

definition scenarioShadowed :: KnowledgeGraphProps where
  "scenarioShadowed =
     \<lparr>functions' = [fnNamed ''Unknown''], classes = [clsNamed ''A'' [''Unknown''] []],
      relationships = None\<rparr>"

text \<open>
  A function \<open>f\<close>, a class \<open>B\<close> with method \<open>m\<close>; \<open>f\<close> calls itself and \<open>B\<close>, and \<open>m\<close> is
  called on \<open>B\<close>.
\<close>

definition scenarioMixed :: KnowledgeGraphProps where
  "scenarioMixed =
     \<lparr>functions' = [fnNamed ''f''], classes = [clsNamed ''B'' [] [fnNamed ''m'']],
      relationships =
        Some (callsOnly [functionCallRecord ''f'' ''f'', functionCallRecord ''f'' ''B'']
                [methodCallRecord ''B'' ''m''])\<rparr>"

section \<open>Supporting lemmas\<close>
lemma digitVal_digit: "d < 10 \<Longrightarrow> digitVal (digit d) = d"
  by (simp add: digitVal_def digit_def)

lemma readNat_snoc: "readNat (s @ [c]) = 10 * readNat s + digitVal c"
  by (simp add: readNat_def)

lemma readNat_showNat: "readNat (showNat n) = n"
proof (induction n rule: showNat.induct)
  case (1 n)
  show ?case
  proof (cases "n < 10")
    case True
    then show ?thesis
      by (subst showNat.simps) (simp add: readNat_def digitVal_digit)
  next
    case False
    then have "readNat (showNat (n div 10)) = n div 10" using 1 by simp
    with False show ?thesis
      by (subst showNat.simps) (simp add: readNat_snoc digitVal_digit)
  qed
qed

lemma showNat_inj: "showNat a = showNat b \<Longrightarrow> a = b"
  by (metis readNat_showNat)

lemma showNat_eq_iff [simp]: "showNat a = showNat b \<longleftrightarrow> a = b"
  using showNat_inj by auto

subsection \<open>The function pass and the method loop\<close>

lemma addFunction_nodes:
  "nodes (addFunction lc t f i st) = nodes st @ (if matchesSearch lc t (name f) then [functionNode i f] else [])"
  by (simp add: addFunction_def)

lemma addFunction_edges: "edges (addFunction lc t f i st) = edges st"
  by (simp add: addFunction_def)

lemma forEach_addFunction_nodes:
  "nodes (forEach (addFunction lc t) i fs st) =
     nodes st @ map (\<lambda>(i, f). functionNode i f)
       (filter (\<lambda>(i, f). matchesSearch lc t (name f)) (enumerate i fs))"
  by (induction fs arbitrary: i st) (simp_all add: addFunction_nodes)

lemma forEach_addFunction_edges: "edges (forEach (addFunction lc t) i fs st) = edges st"
  by (induction fs arbitrary: i st) (simp_all add: addFunction_edges)

lemma addMethod_nodes:
  "nodes (addMethod lc t ci m j st) = nodes st @ (if matchesSearch lc t (name m) then [methodNode ci j m] else [])"
  by (simp add: addMethod_def)

lemma addMethod_edges:
  "edges (addMethod lc t ci m j st) = edges st @ (if matchesSearch lc t (name m) then [containsEdge (classId ci) (methodId ci j)] else [])"
  by (simp add: addMethod_def)

lemma addMethod_nodeMap: "nodeMap (addMethod lc t ci m j st) = nodeMap st"
  by (simp add: addMethod_def)

lemma forEach_addMethod_nodes:
  "nodes (forEach (addMethod lc t ci) j ms st) =
     nodes st @ map (\<lambda>(j, m). methodNode ci j m)
       (filter (\<lambda>(j, m). matchesSearch lc t (name m)) (enumerate j ms))"
  by (induction ms arbitrary: j st) (simp_all add: addMethod_nodes)

lemma forEach_addMethod_edges:
  "edges (forEach (addMethod lc t ci) j ms st) =
     edges st @ map (\<lambda>(j, m). containsEdge (classId ci) (methodId ci j))
       (filter (\<lambda>(j, m). matchesSearch lc t (name m)) (enumerate j ms))"
  by (induction ms arbitrary: j st) (simp_all add: addMethod_edges)

lemma forEach_addMethod_nodeMap: "nodeMap (forEach (addMethod lc t ci) j ms st) = nodeMap st"
  by (induction ms arbitrary: j st) (simp_all add: addMethod_nodeMap)

lemma stubNode_sel [simp]:
  "node_id (stubNode i b) = i" "label (stubNode i b) = b" "node_type (stubNode i b) = Class"
  "nodeData (stubNode i b) = ClassData \<lparr>name = b, docstring = None, bases = [], methods = []\<rparr>"
  by (simp_all add: stubNode_def)

lemma functionNode_sel [simp]:
  "node_id (functionNode i f) = funcId i" "label (functionNode i f) = name f"
  "node_type (functionNode i f) = Function" "nodeData (functionNode i f) = FunctionData f"
  by (simp_all add: functionNode_def)

lemma classNode_sel [simp]:
  "node_id (classNode i c) = classId i" "label (classNode i c) = name c"
  "node_type (classNode i c) = Class" "nodeData (classNode i c) = ClassData c"
  by (simp_all add: classNode_def)

lemma methodNode_sel [simp]:
  "node_id (methodNode i j m) = methodId i j" "label (methodNode i j m) = name m"
  "node_type (methodNode i j m) = Method" "nodeData (methodNode i j m) = FunctionData m"
  by (simp_all add: methodNode_def)

lemma baseStubId_inj [simp]: "baseStubId a = baseStubId b \<longleftrightarrow> a = b"
  by (simp add: baseStubId_def)

lemma ids_not_stub [simp]:
  "funcId i \<noteq> baseStubId b" "classId i \<noteq> baseStubId b" "methodId i j \<noteq> baseStubId b"
  by (simp_all add: funcId_def classId_def methodId_def baseStubId_def)

lemma nodeWf_id_nonempty: "nodeWf n \<Longrightarrow> node_id n \<noteq> []"
proof
  assume wf: "nodeWf n" and e: "node_id n = []"
  show False
  proof (cases "node_type n")
    case Function with wf e show ?thesis by (simp add: nodeWf_def)
  next
    case Method with wf e show ?thesis by (simp add: nodeWf_def)
  next
    case Class
    with wf e have "n = stubNode (baseStubId (label n)) (label n)" by (simp add: nodeWf_def)
    then have "node_id n = baseStubId (label n)" by (metis stubNode_sel(1))
    with e show ?thesis by (simp add: baseStubId_def)
  qed
qed

lemma nodeWf_functionNode [simp]: "nodeWf (functionNode i f)"
  by (simp add: nodeWf_def funcId_def)

lemma nodeWf_classNode [simp]: "nodeWf (classNode i c)"
  by (simp add: nodeWf_def classId_def)

lemma nodeWf_methodNode [simp]: "nodeWf (methodNode i j m)"
  by (simp add: nodeWf_def methodId_def)

lemma nodeWf_stubNode [simp]: "nodeWf (stubNode (baseStubId b) b)"
  by (simp add: nodeWf_def)

lemma registryInv_empty: "registryInv emptyState"
  by (simp add: registryInv_def emptyState_def)

lemma registryInv_registered:
  assumes "registryInv st" "nodeMap st k = Some v"
  shows "v \<noteq> []" and "\<exists>y. find (\<lambda>n. node_id n = v) (nodes st) = Some y"
proof -
  from assms obtain n where n: "n \<in> set (nodes st)" "node_id n = v"
    unfolding registryInv_def by blast
  with assms(1) have "nodeWf n" unfolding registryInv_def by blast
  with n show "v \<noteq> []" using nodeWf_id_nonempty by blast
  from n have "find (\<lambda>n. node_id n = v) (nodes st) \<noteq> None"
    by (auto simp: find_None_iff)
  then show "\<exists>y. find (\<lambda>n. node_id n = v) (nodes st) = Some y" by auto
qed

lemma registryInv_unregistered_filter:
  assumes "registryInv st" "nodeMap st b = None"
  shows "filter (\<lambda>n. node_id n = baseStubId b) (nodes st) = []"
proof -
  from assms(1) have "length (filter (\<lambda>n. node_id n = baseStubId b) (nodes st)) \<le>
         (case nodeMap st b of None \<Rightarrow> 0 | Some v \<Rightarrow> 1)"
    unfolding registryInv_def by blast
  with assms(2) show ?thesis by simp
qed

lemma registryInv_unregistered:
  assumes "registryInv st" "nodeMap st b = None"
  shows "find (\<lambda>n. node_id n = baseStubId b) (nodes st) = None"
  using registryInv_unregistered_filter [OF assms]
  by (simp add: find_None_iff filter_empty_conv)

lemma addBase_closed:
  assumes "registryInv st"
  shows "addBase ci b j st =
     (case nodeMap st b of
        Some v \<Rightarrow> st\<lparr>edges := edges st @ [inheritsEdge (classId ci) v j]\<rparr>
      | None \<Rightarrow> st\<lparr>nodes := nodes st @ [stubNode (baseStubId b) b],
                   nodeMap := (nodeMap st)(b \<mapsto> baseStubId b),
                   edges := edges st @ [inheritsEdge (classId ci) (baseStubId b) j]\<rparr>)"
proof (cases "nodeMap st b")
  case None
  with assms show ?thesis
    by (simp add: addBase_def resolveBaseId_def registryInv_unregistered Let_def)
next
  case (Some v)
  from registryInv_registered [OF assms Some]
  obtain y where "v \<noteq> []" "find (\<lambda>n. node_id n = v) (nodes st) = Some y" by blast
  with Some show ?thesis
    by (simp add: addBase_def resolveBaseId_def Let_def)
qed

lemma registryInv_edges_update [simp]:
  "registryInv (st\<lparr>edges := es\<rparr>) = registryInv st"
  by (simp add: registryInv_def)

lemma registryInv_push:
  assumes "registryInv st" "nodeWf n" "\<And>b. node_id n \<noteq> baseStubId b"
  shows "registryInv (st\<lparr>nodes := nodes st @ [n]\<rparr>)"
  using assms unfolding registryInv_def by auto

lemma registryInv_register:
  assumes inv: "registryInv st" and n: "n \<in> set (nodes st)" "node_type n \<noteq> Method"
  shows "registryInv (st\<lparr>nodeMap := (nodeMap st)(k \<mapsto> node_id n)\<rparr>)"
proof -
  have c: "length (filter (\<lambda>n. node_id n = baseStubId b) (nodes st)) \<le>
         (case ((nodeMap st)(k \<mapsto> node_id n)) b of None \<Rightarrow> 0 | Some v \<Rightarrow> 1)" for b
  proof -
    have le: "length (filter (\<lambda>n. node_id n = baseStubId b) (nodes st)) \<le>
         (case nodeMap st b of None \<Rightarrow> 0 | Some v \<Rightarrow> 1)"
      using inv unfolding registryInv_def by blast
    show ?thesis
    proof (cases "b = k")
      case True
      from le have "length (filter (\<lambda>n. node_id n = baseStubId b) (nodes st)) \<le> 1"
        by (cases "nodeMap st b") simp_all
      with True show ?thesis by simp
    next
      case False with le show ?thesis by simp
    qed
  qed
  from inv n have "\<forall>k' v. ((nodeMap st)(k \<mapsto> node_id n)) k' = Some v \<longrightarrow>
         (\<exists>n \<in> set (nodes st). node_id n = v \<and> node_type n \<noteq> Method)"
    unfolding registryInv_def by auto
  moreover from inv have "\<forall>n \<in> set (nodes st). nodeWf n"
    unfolding registryInv_def by blast
  ultimately show ?thesis
    unfolding registryInv_def using c by simp
qed

lemma registryInv_push_register:
  assumes "registryInv st" "nodeWf n" "\<And>b. node_id n \<noteq> baseStubId b"
    "node_type n \<noteq> Method"
  shows "registryInv (st\<lparr>nodes := nodes st @ [n], nodeMap := (nodeMap st)(k \<mapsto> node_id n)\<rparr>)"
proof -
  have "registryInv (st\<lparr>nodes := nodes st @ [n]\<rparr>)"
    using assms registryInv_push by blast
  from registryInv_register [OF this, of n k] assms(4)
  show ?thesis by simp
qed

lemma registryInv_push_stub:
  assumes inv: "registryInv st" and un: "nodeMap st b = None"
  shows "registryInv (st\<lparr>nodes := nodes st @ [stubNode (baseStubId b) b],
                         nodeMap := (nodeMap st)(b \<mapsto> baseStubId b)\<rparr>)"
proof -
  let ?n = "stubNode (baseStubId b) b"
  let ?st = "st\<lparr>nodes := nodes st @ [?n], nodeMap := (nodeMap st)(b \<mapsto> baseStubId b)\<rparr>"
  have e: "filter (\<lambda>n. node_id n = baseStubId b) (nodes st) = []"
    using registryInv_unregistered_filter [OF assms] .
  show "registryInv ?st"
    unfolding registryInv_def
  proof (intro conjI)
    show "\<forall>n \<in> set (nodes ?st). nodeWf n"
      using inv unfolding registryInv_def by simp
    show "\<forall>k v. nodeMap ?st k = Some v \<longrightarrow>
         (\<exists>n \<in> set (nodes ?st). node_id n = v \<and> node_type n \<noteq> Method)"
      using inv unfolding registryInv_def by auto
    show "\<forall>b'. length (filter (\<lambda>n. node_id n = baseStubId b') (nodes ?st)) \<le>
         (case nodeMap ?st b' of None \<Rightarrow> 0 | Some v \<Rightarrow> 1)"
    proof
    fix b'
    have le: "length (filter (\<lambda>n. node_id n = baseStubId b') (nodes st)) \<le>
         (case nodeMap st b' of None \<Rightarrow> 0 | Some v \<Rightarrow> 1)"
      using inv unfolding registryInv_def by blast
    show "length (filter (\<lambda>n. node_id n = baseStubId b') (nodes ?st)) \<le>
         (case nodeMap ?st b' of None \<Rightarrow> 0 | Some v \<Rightarrow> 1)"
    proof (cases "b' = b")
      case True
      then show ?thesis using e by simp
    next
      case False
      then show ?thesis using le by simp
    qed
    qed
  qed
qed

lemma registryInv_addBase:
  assumes inv: "registryInv st"
  shows "registryInv (addBase ci b j st)"
proof (cases "nodeMap st b")
  case None
  from registryInv_push_stub [OF inv None] show ?thesis
    by (simp add: addBase_closed [OF inv] None)
next
  case (Some v)
  with inv show ?thesis
    by (simp add: addBase_closed [OF inv])
qed

lemma registryInv_addFunction:
  assumes inv: "registryInv st"
  shows "registryInv (addFunction lc t f i st)"
proof (cases "matchesSearch lc t (name f)")
  case True
  from registryInv_push_register [OF inv, of "functionNode i f" "name f"]
  have "registryInv (st\<lparr>nodes := nodes st @ [functionNode i f],
                         nodeMap := (nodeMap st)(name f \<mapsto> funcId i)\<rparr>)"
    by simp
  with True show ?thesis by (simp add: addFunction_def)
next
  case False
  with inv show ?thesis by (simp add: addFunction_def)
qed

lemma registryInv_addMethod:
  assumes inv: "registryInv st"
  shows "registryInv (addMethod lc t ci m j st)"
proof (cases "matchesSearch lc t (name m)")
  case True
  from registryInv_push [OF inv, of "methodNode ci j m"]
  have "registryInv (st\<lparr>nodes := nodes st @ [methodNode ci j m]\<rparr>)"
    by simp
  with True show ?thesis by (simp add: addMethod_def)
next
  case False
  with inv show ?thesis by (simp add: addMethod_def)
qed

lemma forEach_registryInv:
  assumes "registryInv st" and "\<And>x i s. registryInv s \<Longrightarrow> registryInv (f x i s)"
  shows "registryInv (forEach f i xs st)"
  using assms by (induction xs arbitrary: i st) auto

lemma registryInv_addClass:
  assumes inv: "registryInv st"
  shows "registryInv (addClass lc fs c i st)"
proof -
  let ?st1 = "st\<lparr>nodes := nodes st @ [classNode i c],
                      nodeMap := (nodeMap st)(name c \<mapsto> classId i)\<rparr>"
  let ?st2 = "if showMethods fs
              then forEach (addMethod lc (searchTerm fs) i) 0 (methods c) ?st1 else ?st1"
  have 1: "registryInv ?st1"
    using registryInv_push_register [OF inv, of "classNode i c" "name c"] by simp
  have "registryInv (forEach (addMethod lc (searchTerm fs) i) 0 (methods c) ?st1)"
    by (rule forEach_registryInv [OF 1]) (rule registryInv_addMethod)
  with 1 have 2: "registryInv ?st2" by simp
  have 3: "registryInv (forEach (addBase i) 0 (bases c) ?st2)"
    by (rule forEach_registryInv [OF 2]) (rule registryInv_addBase)
  show ?thesis
    using inv 2 3 by (simp add: addClass_def Let_def)
qed

lemma registryInv_buildEntities: "registryInv (buildEntities lc props fs)"
proof -
  let ?st1 = "if showFunctions fs
       then forEach (addFunction lc (searchTerm fs)) 0 (functions' props) emptyState
       else emptyState"
  have "registryInv (forEach (addFunction lc (searchTerm fs)) 0 (functions' props) emptyState)"
    by (rule forEach_registryInv [OF registryInv_empty]) (rule registryInv_addFunction)
  then have 1: "registryInv ?st1"
    by (simp add: registryInv_empty)
  have "registryInv (forEach (addClass lc fs) 0 (classes props) ?st1)"
    by (rule forEach_registryInv [OF 1]) (rule registryInv_addClass)
  with 1 show ?thesis
    by (simp add: buildEntities_def Let_def)
qed

subsection \<open>The relationship passes leave nodes and registry untouched\<close>

lemma addFunctionCall_nodes [simp]: "nodes (addFunctionCall call i st) = nodes st"
  by (simp add: addFunctionCall_def Let_def split: option.splits)

lemma addFunctionCall_nodeMap [simp]: "nodeMap (addFunctionCall call i st) = nodeMap st"
  by (simp add: addFunctionCall_def Let_def split: option.splits)

lemma addMethodCall_nodes [simp]: "nodes (addMethodCall call i st) = nodes st"
  by (simp add: addMethodCall_def Let_def split: option.splits)

lemma addMethodCall_nodeMap [simp]: "nodeMap (addMethodCall call i st) = nodeMap st"
  by (simp add: addMethodCall_def Let_def split: option.splits)

lemma forEach_addFunctionCall_nodes [simp]:
  "nodes (forEach addFunctionCall i cs st) = nodes st"
  by (induction cs arbitrary: i st) simp_all

lemma forEach_addFunctionCall_nodeMap [simp]:
  "nodeMap (forEach addFunctionCall i cs st) = nodeMap st"
  by (induction cs arbitrary: i st) simp_all

lemma forEach_addMethodCall_nodes [simp]:
  "nodes (forEach addMethodCall i cs st) = nodes st"
  by (induction cs arbitrary: i st) simp_all

lemma forEach_addMethodCall_nodeMap [simp]:
  "nodeMap (forEach addMethodCall i cs st) = nodeMap st"
  by (induction cs arbitrary: i st) simp_all

lemma addRelationships_nodes [simp]: "nodes (addRelationships props fs st) = nodes st"
  by (simp add: addRelationships_def)

lemma addRelationships_nodeMap [simp]: "nodeMap (addRelationships props fs st) = nodeMap st"
  by (simp add: addRelationships_def)

lemma transform_nodes: "nodes (transformDataToGraph lc props fs) = nodes (buildEntities lc props fs)"
  by (simp add: transformDataToGraph_def Let_def)

lemma transform_edges:
  "edges (transformDataToGraph lc props fs) = edges (addRelationships props fs (buildEntities lc props fs))"
  by (simp add: transformDataToGraph_def Let_def)

subsection \<open>Filtered edge lists\<close>

lemma edge_sel [simp]:
  "edge_type (containsEdge a b) = Contains" "source (containsEdge a b) = a"
  "target (containsEdge a b) = b"
  "edge_type (inheritsEdge a b j) = Inherits" "source (inheritsEdge a b j) = a"
  "target (inheritsEdge a b j) = b"
  "edge_type (callEdge i a b) = Calls" "source (callEdge i a b) = a"
  "target (callEdge i a b) = b" "edge_id (callEdge i a b) = callId i"
  "edge_type (methodCallEdge i a b) = Calls" "source (methodCallEdge i a b) = a"
  "target (methodCallEdge i a b) = b"
  "edge_id (methodCallEdge i a b) = ''method-call-'' @ showNat i"
  by (simp_all add: containsEdge_def inheritsEdge_def callEdge_def methodCallEdge_def)

lemma addBase_edges:
  "edges (addBase ci b j st) =
     edges st @ [inheritsEdge (classId ci) (resolveBaseId (nodeMap st) b) j]"
  by (simp add: addBase_def Let_def)

lemma forEach_edges_filter:
  assumes "\<And>x i s. filter P (edges (f x i s)) = filter P (edges s)"
  shows "filter P (edges (forEach f i xs st)) = filter P (edges st)"
  using assms by (induction xs arbitrary: i st) auto

lemma forEach_nodes_filter:
  assumes "\<And>x i s. filter P (nodes (f x i s)) = filter P (nodes s)"
  shows "filter P (nodes (forEach f i xs st)) = filter P (nodes st)"
  using assms by (induction xs arbitrary: i st) auto

lemma filter_weaker:
  assumes "filter Q xs = filter Q ys" and "\<And>x. P x \<Longrightarrow> Q x"
  shows "filter P xs = filter P ys"
proof -
  have "filter P (filter Q zs) = filter P zs" for zs
    using assms(2) by (induction zs) auto
  then show ?thesis using assms(1) by metis
qed

lemma addFunctionCall_edges_filter:
  "filter (\<lambda>e. edge_type e \<noteq> Calls) (edges (addFunctionCall call i st)) =
   filter (\<lambda>e. edge_type e \<noteq> Calls) (edges st)"
  by (simp add: addFunctionCall_def Let_def split: option.splits)

lemma addMethodCall_edges_filter:
  "filter (\<lambda>e. edge_type e \<noteq> Calls) (edges (addMethodCall call i st)) =
   filter (\<lambda>e. edge_type e \<noteq> Calls) (edges st)"
  by (simp add: addMethodCall_def Let_def split: option.splits)

lemma addRelationships_edges_filter:
  "filter (\<lambda>e. edge_type e \<noteq> Calls) (edges (addRelationships props fs st)) =
   filter (\<lambda>e. edge_type e \<noteq> Calls) (edges st)"
  by (simp add: addRelationships_def forEach_edges_filter
      addFunctionCall_edges_filter addMethodCall_edges_filter)

lemma addMethod_no_calls:
  "filter (\<lambda>e. edge_type e = Calls) (edges (addMethod lc t ci m j st)) =
   filter (\<lambda>e. edge_type e = Calls) (edges st)"
  by (simp add: addMethod_def)

lemma addBase_no_calls:
  "filter (\<lambda>e. edge_type e = Calls) (edges (addBase ci b j st)) =
   filter (\<lambda>e. edge_type e = Calls) (edges st)"
  by (simp add: addBase_edges)

lemma addClass_no_calls:
  "filter (\<lambda>e. edge_type e = Calls) (edges (addClass lc fs c i st)) =
   filter (\<lambda>e. edge_type e = Calls) (edges st)"
  by (simp add: addClass_def Let_def forEach_edges_filter addMethod_no_calls addBase_no_calls)

lemma buildEntities_no_calls:
  "filter (\<lambda>e. edge_type e = Calls) (edges (buildEntities lc props fs)) = []"
  by (simp add: buildEntities_def Let_def forEach_edges_filter addClass_no_calls
      forEach_addFunction_edges emptyState_def)

lemma addClass_showRelationships:
  "addClass lc (fs\<lparr>showRelationships := b\<rparr>) = addClass lc fs"
  by (intro ext) (simp add: addClass_def Let_def)

lemma buildEntities_showRelationships:
  "buildEntities lc props (fs\<lparr>showRelationships := b\<rparr>) = buildEntities lc props fs"
  by (simp add: buildEntities_def addClass_showRelationships)

lemma addFunctionCall_edges:
  assumes inv: "registryInv st"
  shows "edges (addFunctionCall call i st) =
     edges st @ (case resolvableCall (nodeMap st) call of
                   Some (a, b) \<Rightarrow> [callEdge i a b] | None \<Rightarrow> [])"
proof -
  have ne: "nodeMap st k = Some v \<Longrightarrow> v \<noteq> []" for k v
    using registryInv_registered(1) [OF inv] by blast
  show ?thesis
    by (auto simp: addFunctionCall_def resolvableCall_def truthy_def Let_def
        split: option.splits dest: ne)
qed

lemma find_SomeD: "find P xs = Some x \<Longrightarrow> x \<in> set xs \<and> P x"
  by (induction xs) (auto split: if_splits)

lemma addMethodCall_edges:
  "edges (addMethodCall call i st) = edges st \<or>
   (\<exists>ob v mn. nodeMap st ob = Some v \<and> mn \<in> set (nodes st) \<and> node_type mn = Method \<and>
      edges (addMethodCall call i st) = edges st @ [methodCallEdge i v (node_id mn)])"
proof (cases "edges (addMethodCall call i st) = edges st")
  case True
  then show ?thesis by simp
next
  case False
  then obtain ob me v mn where
    "nodeMap st ob = Some v"
    "find (\<lambda>n. node_type n = Method \<and> nodeData_name (nodeData n) = me \<and>
                includesStr (node_id n) ''method-'') (nodes st) = Some mn"
    "edges (addMethodCall call i st) = edges st @ [methodCallEdge i v (node_id mn)]"
    by (auto simp: addMethodCall_def truthy_def Let_def split: option.splits if_splits)
  with find_SomeD [OF this(2)] show ?thesis by blast
qed

lemma nodeWf_not_method_prefix:
  assumes "nodeWf n" "node_type n \<noteq> Method"
  shows "\<not> prefix ''method-'' (node_id n)"
proof (cases "node_type n")
  case Function
  with assms show ?thesis by (auto simp: nodeWf_def prefix_def)
next
  case Class
  with assms have "prefix ''class-'' (node_id n) \<or> node_id n = baseStubId (label n)"
    by (auto simp: nodeWf_def) (metis stubNode_sel(1))
  then show ?thesis by (auto simp: prefix_def baseStubId_def)
next
  case Method
  with assms show ?thesis by simp
qed

lemma registered_not_method_node:
  assumes inv: "registryInv st" and r: "nodeMap st k = Some v"
    and mn: "mn \<in> set (nodes st)" "node_type mn = Method"
  shows "v \<noteq> node_id mn"
proof -
  from inv r obtain n where n: "n \<in> set (nodes st)" "node_id n = v" "node_type n \<noteq> Method"
    unfolding registryInv_def by blast
  from inv n(1) mn(1) have wf: "nodeWf n" "nodeWf mn" unfolding registryInv_def by blast+
  from wf(2) mn(2) have "prefix ''method-'' (node_id mn)" by (simp add: nodeWf_def)
  moreover from nodeWf_not_method_prefix [OF wf(1) n(3)] n(2)
  have "\<not> prefix ''method-'' v" by simp
  ultimately show ?thesis by auto
qed

lemma registered_in_nodes:
  assumes "registryInv st" "nodeMap st k = Some v"
  shows "v \<in> node_id ` set (nodes st)"
  using assms unfolding registryInv_def by blast

text \<open>A property of every edge survives the relationship passes when each new
  \<open>calls\<close> edge has it.\<close>

lemma forEach_addFunctionCall_edges_all:
  assumes inv: "registryInv st" and old: "\<forall>e \<in> set (edges st). Q e"
    and new: "\<And>i k1 k2 a b. nodeMap st k1 = Some a \<Longrightarrow> nodeMap st k2 = Some b \<Longrightarrow> a \<noteq> b
                \<Longrightarrow> Q (callEdge i a b)"
  shows "\<forall>e \<in> set (edges (forEach addFunctionCall i cs st)). Q e"
  using assms
proof (induction cs arbitrary: i st)
  case Nil
  then show ?case by simp
next
  case (Cons c cs)
  let ?st = "addFunctionCall c i st"
  have 1: "registryInv ?st"
    using Cons.prems(1) unfolding registryInv_def by simp
  have 2: "\<forall>e \<in> set (edges ?st). Q e"
    using Cons.prems(2) Cons.prems(3)
    by (auto simp: addFunctionCall_edges [OF Cons.prems(1)] resolvableCall_def
        split: option.splits if_splits)
  have "\<forall>e \<in> set (edges (forEach addFunctionCall (Suc i) cs ?st)). Q e"
    by (rule Cons.IH [OF 1 2]) (use Cons.prems(3) in simp)
  then show ?case by simp
qed

lemma forEach_addMethodCall_edges_all:
  assumes old: "\<forall>e \<in> set (edges st). Q e"
    and new: "\<And>i k v mn. nodeMap st k = Some v \<Longrightarrow> mn \<in> set (nodes st) \<Longrightarrow>
                 node_type mn = Method \<Longrightarrow> Q (methodCallEdge i v (node_id mn))"
  shows "\<forall>e \<in> set (edges (forEach addMethodCall i cs st)). Q e"
  using assms
proof (induction cs arbitrary: i st)
  case Nil
  then show ?case by simp
next
  case (Cons c cs)
  let ?st = "addMethodCall c i st"
  have 2: "\<forall>e \<in> set (edges ?st). Q e"
    using addMethodCall_edges [of c i st] Cons.prems by auto
  have "\<forall>e \<in> set (edges (forEach addMethodCall (Suc i) cs ?st)). Q e"
    by (rule Cons.IH [OF 2]) (use Cons.prems(2) in simp)
  then show ?case by simp
qed

lemma addRelationships_edges_all:
  assumes inv: "registryInv st" and old: "\<forall>e \<in> set (edges st). Q e"
    and fc: "\<And>i k1 k2 a b. nodeMap st k1 = Some a \<Longrightarrow> nodeMap st k2 = Some b \<Longrightarrow> a \<noteq> b
                \<Longrightarrow> Q (callEdge i a b)"
    and mc: "\<And>i k v mn. nodeMap st k = Some v \<Longrightarrow> mn \<in> set (nodes st) \<Longrightarrow>
                 node_type mn = Method \<Longrightarrow> Q (methodCallEdge i v (node_id mn))"
  shows "\<forall>e \<in> set (edges (addRelationships props fs st)). Q e"
proof (cases "showRelationships fs")
  case False
  with old show ?thesis by (simp add: addRelationships_def)
next
  case True
  let ?st = "forEach addFunctionCall 0 (function_calls (relationshipsOf props)) st"
  have 1: "\<forall>e \<in> set (edges ?st). Q e"
    by (rule forEach_addFunctionCall_edges_all [OF inv old]) (rule fc)
  have "\<forall>e \<in> set (edges (forEach addMethodCall 0 (method_calls (relationshipsOf props)) ?st)). Q e"
    by (rule forEach_addMethodCall_edges_all [OF 1]) (use mc in simp)
  with True show ?thesis by (simp add: addRelationships_def)
qed

lemma edgesResolved_empty: "edgesResolved emptyState"
  by (simp add: edgesResolved_def emptyState_def)

lemma edgesResolved_addFunction:
  "edgesResolved st \<Longrightarrow> edgesResolved (addFunction lc t f i st)"
  by (auto simp: edgesResolved_def addFunction_def)

lemma edgesResolved_addMethod:
  assumes "edgesResolved st \<and> classId ci \<in> node_id ` set (nodes st)"
  shows "edgesResolved (addMethod lc t ci m j st) \<and>
         classId ci \<in> node_id ` set (nodes (addMethod lc t ci m j st))"
  using assms by (auto simp: edgesResolved_def addMethod_def)

lemma edgesResolved_addBase:
  assumes "edgesResolved st \<and> classId ci \<in> node_id ` set (nodes st)"
  shows "edgesResolved (addBase ci b j st) \<and>
         classId ci \<in> node_id ` set (nodes (addBase ci b j st))"
proof (cases "find (\<lambda>n. node_id n = resolveBaseId (nodeMap st) b) (nodes st)")
  case None
  with assms show ?thesis
    by (auto simp: edgesResolved_def addBase_def Let_def)
next
  case (Some n)
  from find_SomeD [OF Some] have "resolveBaseId (nodeMap st) b \<in> node_id ` set (nodes st)"
    by (metis imageI)
  with Some assms show ?thesis
    by (auto simp: edgesResolved_def addBase_def Let_def)
qed

lemma forEach_pred:
  assumes "P st" and "\<And>x i s. P s \<Longrightarrow> P (f x i s)"
  shows "P (forEach f i xs st)"
  using assms by (induction xs arbitrary: i st) auto

lemma edgesResolved_addClass:
  assumes res: "edgesResolved st"
  shows "edgesResolved (addClass lc fs c i st)"
proof (cases "matchesSearch lc (searchTerm fs) (name c)")
  case False
  with res show ?thesis by (simp add: addClass_def)
next
  case True
  let ?P = "\<lambda>s. edgesResolved s \<and> classId i \<in> node_id ` set (nodes s)"
  let ?st1 = "st\<lparr>nodes := nodes st @ [classNode i c],
                  nodeMap := (nodeMap st)(name c \<mapsto> classId i)\<rparr>"
  let ?st2 = "if showMethods fs
              then forEach (addMethod lc (searchTerm fs) i) 0 (methods c) ?st1 else ?st1"
  have 1: "?P ?st1"
    using res by (auto simp: edgesResolved_def)
  have "?P (forEach (addMethod lc (searchTerm fs) i) 0 (methods c) ?st1)"
    using 1 edgesResolved_addMethod
    by (rule forEach_pred [where P = ?P])
  with 1 have 2: "?P ?st2" by presburger
  have 3: "?P (forEach (addBase i) 0 (bases c) ?st2)"
    using 2 edgesResolved_addBase
    by (rule forEach_pred [where P = ?P])
  from True 2 3 show ?thesis
    by (simp add: addClass_def Let_def)
qed

lemma edgesResolved_buildEntities: "edgesResolved (buildEntities lc props fs)"
proof -
  let ?st1 = "if showFunctions fs
       then forEach (addFunction lc (searchTerm fs)) 0 (functions' props) emptyState
       else emptyState"
  have "edgesResolved (forEach (addFunction lc (searchTerm fs)) 0 (functions' props) emptyState)"
    using edgesResolved_empty edgesResolved_addFunction
    by (rule forEach_pred [where P = edgesResolved])
  then have 1: "edgesResolved ?st1"
    by (simp add: edgesResolved_empty)
  have "edgesResolved (forEach (addClass lc fs) 0 (classes props) ?st1)"
    using 1 edgesResolved_addClass
    by (rule forEach_pred [where P = edgesResolved])
  with 1 show ?thesis
    by (simp add: buildEntities_def Let_def)
qed

lemma buildEntities_no_classes:
  assumes "\<not> showClasses fs"
  shows "nodes (buildEntities lc props fs) =
           (if showFunctions fs
            then map (\<lambda>(i, f). functionNode i f)
                   (filter (\<lambda>(i, f). matchesSearch lc (searchTerm fs) (name f))
                      (enumerate 0 (functions' props)))
            else [])"
    and "edges (buildEntities lc props fs) = []"
  using assms
  by (simp_all add: buildEntities_def Let_def forEach_addFunction_nodes
      forEach_addFunction_edges emptyState_def)

subsection \<open>Closed forms of the filtered node lists\<close>

lemma concat_map_if_singleton:
  "concat (map (\<lambda>(i, x). if P x then [g i x] else []) xs) =
   map (\<lambda>(i, x). g i x) (filter (\<lambda>(i, x). P x) xs)"
  by (induction xs) auto

lemma concat_map_if:
  "concat (map (\<lambda>(i, x). if P x then g i x else []) xs) =
   concat (map (\<lambda>(i, x). g i x) (filter (\<lambda>(i, x). P x) xs))"
  by (induction xs) auto

lemma concat_map_Nil: "concat (map (\<lambda>(i, x). []) xs) = []"
  by (induction xs) auto

lemma forEach_nodes_filter_append:
  assumes "I st" and "\<And>x i s. I s \<Longrightarrow> I (f x i s)"
    and "\<And>x i s. I s \<Longrightarrow> filter P (nodes (f x i s)) = filter P (nodes s) @ g i x"
  shows "filter P (nodes (forEach f i xs st)) =
         filter P (nodes st) @ concat (map (\<lambda>(i, x). g i x) (enumerate i xs))"
  using assms(1)
proof (induction xs arbitrary: i st)
  case Nil
  then show ?case by simp
next
  case (Cons x xs)
  have I': "I (f x i st)" using assms(2) Cons.prems by blast
  have "filter P (nodes (forEach f (Suc i) xs (f x i st))) =
        filter P (nodes (f x i st)) @ concat (map (\<lambda>(i, x). g i x) (enumerate (Suc i) xs))"
    using Cons.IH [OF I'] .
  then show ?case using assms(3) [OF Cons.prems] by simp
qed

lemma forEach_nodes_filter_inv:
  assumes "I st" and "\<And>x i s. I s \<Longrightarrow> I (f x i s)"
    and "\<And>x i s. I s \<Longrightarrow> filter P (nodes (f x i s)) = filter P (nodes s)"
  shows "filter P (nodes (forEach f i xs st)) = filter P (nodes st)"
  using assms(1)
proof (induction xs arbitrary: i st)
  case Nil
  then show ?case by simp
next
  case (Cons x xs)
  have I': "I (f x i st)" using assms(2) Cons.prems by blast
  show ?case using Cons.IH [OF I'] assms(3) [OF Cons.prems] by simp
qed

lemma forEach_edges_filter_append:
  assumes "\<And>x i s. filter P (edges (f x i s)) = filter P (edges s) @ g i x"
  shows "filter P (edges (forEach f i xs st)) =
         filter P (edges st) @ concat (map (\<lambda>(i, x). g i x) (enumerate i xs))"
proof (induction xs arbitrary: i st)
  case Nil
  then show ?case by simp
next
  case (Cons x xs)
  have "filter P (edges (forEach f (Suc i) xs (f x i st))) =
        filter P (edges (f x i st)) @ concat (map (\<lambda>(i, x). g i x) (enumerate (Suc i) xs))"
    using Cons .
  then show ?case using assms by simp
qed

lemma addBase_nodes_typed:
  "k \<noteq> Class \<Longrightarrow> filter (\<lambda>n. node_type n = k) (nodes (addBase ci b j st)) =
   filter (\<lambda>n. node_type n = k) (nodes st)"
  by (simp add: addBase_def Let_def)

lemma addClass_function_nodes:
  "filter (\<lambda>n. node_type n = Function) (nodes (addClass lc fs c i st)) =
   filter (\<lambda>n. node_type n = Function) (nodes st)"
  by (simp add: addClass_def Let_def forEach_nodes_filter [OF addBase_nodes_typed]
      forEach_addMethod_nodes)

lemma methodNodes_all_method:
  "filter (\<lambda>n. node_type n = Method) (map (\<lambda>(j, m). methodNode ci j m) xs) =
   map (\<lambda>(j, m). methodNode ci j m) xs"
  by (induction xs) auto

lemma addClass_method_nodes:
  "filter (\<lambda>n. node_type n = Method) (nodes (addClass lc fs c i st)) =
   filter (\<lambda>n. node_type n = Method) (nodes st) @
     (if matchesSearch lc (searchTerm fs) (name c)
      then (if showMethods fs
            then map (\<lambda>(j, m). methodNode i j m)
             (filter (\<lambda>(j, m). matchesSearch lc (searchTerm fs) (name m)) (enumerate 0 (methods c)))
            else [])
      else [])"
  by (simp add: addClass_def Let_def forEach_nodes_filter [OF addBase_nodes_typed]
      forEach_addMethod_nodes methodNodes_all_method)

lemma addBase_class_nodes:
  assumes "registryInv st"
  shows "filter (\<lambda>n. node_type n = Class \<and> prefix ''class-'' (node_id n)) (nodes (addBase ci b j st)) =
         filter (\<lambda>n. node_type n = Class \<and> prefix ''class-'' (node_id n)) (nodes st)"
  by (cases "nodeMap st b") (simp_all add: addBase_closed [OF assms] baseStubId_def)

lemma methodNodes_no_class:
  "filter (\<lambda>n. node_type n = Class \<and> Q n) (map (\<lambda>(j, m). methodNode ci j m) xs) = []"
  by (induction xs) auto

lemma addClass_class_nodes:
  assumes inv: "registryInv st"
  shows "filter (\<lambda>n. node_type n = Class \<and> prefix ''class-'' (node_id n)) (nodes (addClass lc fs c i st)) =
         filter (\<lambda>n. node_type n = Class \<and> prefix ''class-'' (node_id n)) (nodes st) @
           (if matchesSearch lc (searchTerm fs) (name c) then [classNode i c] else [])"
proof (cases "matchesSearch lc (searchTerm fs) (name c)")
  case False
  then show ?thesis by (simp add: addClass_def)
next
  case True
  let ?P = "\<lambda>n. node_type n = Class \<and> prefix ''class-'' (node_id n)"
  let ?st1 = "st\<lparr>nodes := nodes st @ [classNode i c],
                  nodeMap := (nodeMap st)(name c \<mapsto> classId i)\<rparr>"
  let ?st2 = "if showMethods fs
              then forEach (addMethod lc (searchTerm fs) i) 0 (methods c) ?st1 else ?st1"
  have 1: "registryInv ?st1"
    using registryInv_push_register [OF inv, of "classNode i c" "name c"] by simp
  have "registryInv (forEach (addMethod lc (searchTerm fs) i) 0 (methods c) ?st1)"
    by (rule forEach_registryInv [OF 1]) (rule registryInv_addMethod)
  with 1 have 2: "registryInv ?st2" by simp
  have n2: "filter ?P (nodes ?st2) = filter ?P (nodes st) @ [classNode i c]"
    by (simp add: forEach_addMethod_nodes methodNodes_no_class classId_def)
  have "filter ?P (nodes (forEach (addBase i) 0 (bases c) ?st2)) = filter ?P (nodes ?st2)"
    by (rule forEach_nodes_filter_inv [where I = registryInv, OF 2 registryInv_addBase
          addBase_class_nodes])
  with True n2 show ?thesis
    by (simp add: addClass_def Let_def)
qed

lemma functionNodes_typed:
  "filter (\<lambda>n. node_type n = Function) (map (\<lambda>(i, f). functionNode i f) xs) =
     map (\<lambda>(i, f). functionNode i f) xs"
  "filter (\<lambda>n. node_type n = Method) (map (\<lambda>(i, f). functionNode i f) xs) = []"
  "filter (\<lambda>n. node_type n = Class \<and> Q n) (map (\<lambda>(i, f). functionNode i f) xs) = []"
  by (induction xs) auto

lemma buildEntities_functionPass:
  "buildEntities lc props fs =
     (if showClasses fs then forEach (addClass lc fs) 0 (classes props) (functionPass lc props fs)
      else functionPass lc props fs)"
  by (simp add: buildEntities_def functionPass_def Let_def)

lemma functionPass_nodes:
  "nodes (functionPass lc props fs) =
   (if showFunctions fs
    then map (\<lambda>(i, f). functionNode i f)
     (filter (\<lambda>(i, f). matchesSearch lc (searchTerm fs) (name f))
        (enumerate 0 (functions' props)))
    else [])"
  by (simp add: functionPass_def forEach_addFunction_nodes emptyState_def)

lemma functionPass_edges: "edges (functionPass lc props fs) = []"
  by (simp add: functionPass_def forEach_addFunction_edges emptyState_def)

lemma functionPass_registryInv: "registryInv (functionPass lc props fs)"
proof -
  have "registryInv (forEach (addFunction lc (searchTerm fs)) 0 (functions' props) emptyState)"
    by (rule forEach_registryInv [OF registryInv_empty]) (rule registryInv_addFunction)
  then show ?thesis by (simp add: functionPass_def registryInv_empty)
qed

lemma buildEntities_function_nodes:
  "filter (\<lambda>n. node_type n = Function) (nodes (buildEntities lc props fs)) =
   (if showFunctions fs
    then map (\<lambda>(i, f). functionNode i f)
     (filter (\<lambda>(i, f). matchesSearch lc (searchTerm fs) (name f))
        (enumerate 0 (functions' props)))
    else [])"
  by (simp add: buildEntities_functionPass forEach_nodes_filter [OF addClass_function_nodes]
      functionPass_nodes functionNodes_typed)

lemma buildEntities_method_nodes:
  "filter (\<lambda>n. node_type n = Method) (nodes (buildEntities lc props fs)) =
   (if showClasses fs \<and> showMethods fs
    then concat (map (\<lambda>(i, c). map (\<lambda>(j, m). methodNode i j m)
                  (filter (\<lambda>(j, m). matchesSearch lc (searchTerm fs) (name m))
                     (enumerate 0 (methods c))))
     (filter (\<lambda>(i, c). matchesSearch lc (searchTerm fs) (name c))
        (enumerate 0 (classes props))))
    else [])"
proof (cases "showClasses fs")
  case False
  then show ?thesis
    by (simp add: buildEntities_functionPass functionPass_nodes functionNodes_typed)
next
  case True
  let ?h = "\<lambda>i c. if showMethods fs
            then map (\<lambda>(j, m). methodNode i j m)
             (filter (\<lambda>(j, m). matchesSearch lc (searchTerm fs) (name m)) (enumerate 0 (methods c)))
            else []"
  let ?g = "\<lambda>i c. if matchesSearch lc (searchTerm fs) (name c) then ?h i c else []"
  have f0: "filter (\<lambda>n. node_type n = Method) (nodes (functionPass lc props fs)) = []"
    by (simp add: functionPass_nodes functionNodes_typed)
  have "filter (\<lambda>n. node_type n = Method)
          (nodes (forEach (addClass lc fs) 0 (classes props) (functionPass lc props fs))) =
        filter (\<lambda>n. node_type n = Method) (nodes (functionPass lc props fs)) @
        concat (map (\<lambda>(i, c). ?g i c) (enumerate 0 (classes props)))"
    by (rule forEach_nodes_filter_append [where I = "\<lambda>s. True", OF TrueI TrueI
          addClass_method_nodes])
  also have "\<dots> = concat (map (\<lambda>(i, c). ?h i c)
     (filter (\<lambda>(i, c). matchesSearch lc (searchTerm fs) (name c)) (enumerate 0 (classes props))))"
    by (simp only: f0 append_Nil concat_map_if)
  finally show ?thesis
    using True by (simp add: buildEntities_functionPass concat_map_Nil)
qed

lemma buildEntities_class_nodes:
  "filter (\<lambda>n. node_type n = Class \<and> prefix ''class-'' (node_id n)) (nodes (buildEntities lc props fs)) =
   (if showClasses fs
    then map (\<lambda>(i, c). classNode i c)
      (filter (\<lambda>(i, c). matchesSearch lc (searchTerm fs) (name c)) (enumerate 0 (classes props)))
    else [])"
proof (cases "showClasses fs")
  case False
  then show ?thesis
    by (simp add: buildEntities_functionPass functionPass_nodes functionNodes_typed)
next
  case True
  let ?P = "\<lambda>n. node_type n = Class \<and> prefix ''class-'' (node_id n)"
  let ?g = "\<lambda>i c. if matchesSearch lc (searchTerm fs) (name c) then [classNode i c] else []"
  have f0: "filter ?P (nodes (functionPass lc props fs)) = []"
    by (simp add: functionPass_nodes functionNodes_typed)
  have "filter ?P (nodes (forEach (addClass lc fs) 0 (classes props) (functionPass lc props fs))) =
        filter ?P (nodes (functionPass lc props fs)) @
        concat (map (\<lambda>(i, c). ?g i c) (enumerate 0 (classes props)))"
    by (rule forEach_nodes_filter_append [where I = registryInv, OF functionPass_registryInv
          registryInv_addClass addClass_class_nodes])
  also have "\<dots> = map (\<lambda>(i, c). classNode i c)
      (filter (\<lambda>(i, c). matchesSearch lc (searchTerm fs) (name c)) (enumerate 0 (classes props)))"
    by (simp only: f0 append_Nil concat_map_if_singleton)
  finally show ?thesis
    using True by (simp add: buildEntities_functionPass)
qed

subsection \<open>The contains edges\<close>

lemma containsEdges_typed:
  "filter (\<lambda>e. edge_type e = Contains) (map (\<lambda>(j, m). containsEdge a (h j)) xs) =
   map (\<lambda>(j, m). containsEdge a (h j)) xs"
  by (induction xs) auto

lemma addBase_edges_typed:
  "k \<noteq> Inherits \<Longrightarrow> filter (\<lambda>e. edge_type e = k) (edges (addBase ci b j st)) =
   filter (\<lambda>e. edge_type e = k) (edges st)"
  by (simp add: addBase_edges)

lemma addClass_contains_edges:
  "filter (\<lambda>e. edge_type e = Contains) (edges (addClass lc fs c i st)) =
   filter (\<lambda>e. edge_type e = Contains) (edges st) @
     (if matchesSearch lc (searchTerm fs) (name c)
      then (if showMethods fs
            then map (\<lambda>(j, m). containsEdge (classId i) (methodId i j))
             (filter (\<lambda>(j, m). matchesSearch lc (searchTerm fs) (name m)) (enumerate 0 (methods c)))
            else [])
      else [])"
  by (simp add: addClass_def Let_def forEach_edges_filter [OF addBase_edges_typed]
      forEach_addMethod_edges containsEdges_typed)

lemma buildEntities_contains_edges:
  "filter (\<lambda>e. edge_type e = Contains) (edges (buildEntities lc props fs)) =
   (if showClasses fs \<and> showMethods fs
    then concat (map (\<lambda>(i, c). map (\<lambda>(j, m). containsEdge (classId i) (methodId i j))
                  (filter (\<lambda>(j, m). matchesSearch lc (searchTerm fs) (name m))
                     (enumerate 0 (methods c))))
     (filter (\<lambda>(i, c). matchesSearch lc (searchTerm fs) (name c))
        (enumerate 0 (classes props))))
    else [])"
proof (cases "showClasses fs")
  case False
  then show ?thesis
    by (simp add: buildEntities_functionPass functionPass_edges)
next
  case True
  let ?h = "\<lambda>i c. if showMethods fs
            then map (\<lambda>(j, m). containsEdge (classId i) (methodId i j))
             (filter (\<lambda>(j, m). matchesSearch lc (searchTerm fs) (name m)) (enumerate 0 (methods c)))
            else []"
  let ?g = "\<lambda>i c. if matchesSearch lc (searchTerm fs) (name c) then ?h i c else []"
  have "filter (\<lambda>e. edge_type e = Contains)
          (edges (forEach (addClass lc fs) 0 (classes props) (functionPass lc props fs))) =
        filter (\<lambda>e. edge_type e = Contains) (edges (functionPass lc props fs)) @
        concat (map (\<lambda>(i, c). ?g i c) (enumerate 0 (classes props)))"
    by (rule forEach_edges_filter_append [OF addClass_contains_edges])
  also have "\<dots> = concat (map (\<lambda>(i, c). ?h i c)
     (filter (\<lambda>(i, c). matchesSearch lc (searchTerm fs) (name c)) (enumerate 0 (classes props))))"
    by (simp only: functionPass_edges filter.simps append_Nil concat_map_if)
  finally show ?thesis
    using True by (simp add: buildEntities_functionPass concat_map_Nil)
qed

lemma transform_edges_not_calls:
  assumes "k \<noteq> Calls"
  shows "filter (\<lambda>e. edge_type e = k) (edges (transformDataToGraph lc props fs)) =
         filter (\<lambda>e. edge_type e = k) (edges (buildEntities lc props fs))"
  unfolding transform_edges
  using assms by (intro filter_weaker [OF addRelationships_edges_filter]) simp

lemma length_filter_enumerate:
  "length (filter (\<lambda>(j, m). P m) (enumerate k xs)) = length (filter P xs)"
  by (induction xs arbitrary: k) auto

lemma length_concat_enumerate:
  assumes "\<And>i c. length (h i c) = n c"
  shows "length (concat (map (\<lambda>(i, c). h i c) (filter (\<lambda>(i, c). Q c) (enumerate k cs)))) =
         sum_list (map n (filter Q cs))"
  using assms by (induction cs arbitrary: k) auto

subsection \<open>The sample inputs, evaluated\<close>

text \<open>
  The graphs of the sample inputs with every flag on and an empty search term. The first
  two are scenarios of the specification: two functions and a call between them, and one
  class with an unresolved base and a method.
\<close>

lemma scenarioCalls_graph:
  "transformDataToGraph asciiLower scenarioCalls (allVisible []) =
     \<lparr>nodes = [functionNode 0 (fnNamed ''f''), functionNode 1 (fnNamed ''g'')],
      edges = [callEdge 0 ''func-0'' ''func-1'']\<rparr>"
  by code_simp

lemma scenarioClass_graph:
  "transformDataToGraph asciiLower scenarioClass (allVisible []) =
     \<lparr>nodes = [classNode 0 (clsNamed ''B'' [''A''] [fnNamed ''m'']),
               methodNode 0 0 (fnNamed ''m''), stubNode ''base-A'' ''A''],
      edges = [containsEdge ''class-0'' ''method-0-0'', inheritsEdge ''class-0'' ''base-A'' 0]\<rparr>"
  by code_simp

lemma scenarioStub_graph:
  "transformDataToGraph asciiLower scenarioStub (allVisible []) =
     \<lparr>nodes = [classNode 0 (clsNamed ''A'' [''Unknown''] []), stubNode ''base-Unknown'' ''Unknown''],
      edges = [inheritsEdge ''class-0'' ''base-Unknown'' 0]\<rparr>"
  by code_simp

lemma scenarioShadowed_graph:
  "transformDataToGraph asciiLower scenarioShadowed (allVisible []) =
     \<lparr>nodes = [functionNode 0 (fnNamed ''Unknown''), classNode 0 (clsNamed ''A'' [''Unknown''] [])],
      edges = [inheritsEdge ''class-0'' ''func-0'' 0]\<rparr>"
  by code_simp

lemma scenarioMixed_graph:
  "transformDataToGraph asciiLower scenarioMixed (allVisible []) =
     \<lparr>nodes = [functionNode 0 (fnNamed ''f''), classNode 0 (clsNamed ''B'' [] [fnNamed ''m'']),
               methodNode 0 0 (fnNamed ''m'')],
      edges = [containsEdge ''class-0'' ''method-0-0'', callEdge 1 ''func-0'' ''class-0'',
               methodCallEdge 0 ''class-0'' ''method-0-0'']\<rparr>"
  by code_simp

lemma addFunctionCall_registryInv:
  "registryInv st \<Longrightarrow> registryInv (addFunctionCall call i st)"
  unfolding registryInv_def by simp

lemma forEach_addFunctionCall_edges:
  assumes "registryInv st"
  shows "edges (forEach addFunctionCall k cs st) =
         edges st @ concat (map (\<lambda>(i, call). callEdgesOf (nodeMap st) i call) (enumerate k cs))"
  using assms
proof (induction cs arbitrary: k st)
  case Nil
  then show ?case by simp
next
  case (Cons c cs)
  from Cons.IH [OF addFunctionCall_registryInv [OF Cons.prems]]
  show ?case
    by (simp add: addFunctionCall_edges [OF Cons.prems] callEdgesOf_def)
qed

lemma callId_inj [simp]: "callId i = callId j \<longleftrightarrow> i = j"
  by (simp add: callId_def)

lemma callId_prefix [simp]: "prefix ''call-'' (callId i)"
  by (simp add: callId_def)

lemma callEdgesOf_id:
  "filter (\<lambda>e. edge_id e = callId i) (callEdgesOf reg j call) =
     (if j = i then callEdgesOf reg i call else [])"
  by (auto simp: callEdgesOf_def split: option.splits)

lemma filter_callEdges_enumerate:
  "filter (\<lambda>e. edge_id e = callId i)
     (concat (map (\<lambda>(j, call). callEdgesOf reg j call) (enumerate k cs))) =
   (if k \<le> i \<and> i < k + length cs then callEdgesOf reg i (cs ! (i - k)) else [])"
proof (induction cs arbitrary: k)
  case Nil
  then show ?case by auto
next
  case (Cons c cs)
  show ?case
  proof (cases "k = i")
    case True
    then show ?thesis by (simp add: Cons callEdgesOf_id)
  next
    case False
    then have "k \<le> i \<Longrightarrow> (i - k) = Suc (i - Suc k)" by simp
    with False show ?thesis by (auto simp: Cons callEdgesOf_id)
  qed
qed

lemma addMethodCall_no_call_id:
  "filter (\<lambda>e. prefix ''call-'' (edge_id e)) (edges (addMethodCall call i st)) =
   filter (\<lambda>e. prefix ''call-'' (edge_id e)) (edges st)"
  using addMethodCall_edges [of call i st] by auto

lemma addClass_no_call_id:
  "filter (\<lambda>e. prefix ''call-'' (edge_id e)) (edges (addClass lc fs c i st)) =
   filter (\<lambda>e. prefix ''call-'' (edge_id e)) (edges st)"
proof -
  have m: "filter (\<lambda>e. prefix ''call-'' (edge_id e)) (edges (addMethod lc t i x j s)) =
           filter (\<lambda>e. prefix ''call-'' (edge_id e)) (edges s)" for t x j s
    by (simp add: addMethod_def containsEdge_def)
  have b: "filter (\<lambda>e. prefix ''call-'' (edge_id e)) (edges (addBase i x j s)) =
           filter (\<lambda>e. prefix ''call-'' (edge_id e)) (edges s)" for x j s
    by (simp add: addBase_edges inheritsEdge_def)
  show ?thesis
    by (simp add: addClass_def Let_def forEach_edges_filter [OF m] forEach_edges_filter [OF b])
qed

lemma buildEntities_no_call_id:
  "filter (\<lambda>e. prefix ''call-'' (edge_id e)) (edges (buildEntities lc props fs)) = []"
  by (simp add: buildEntities_functionPass forEach_edges_filter [OF addClass_no_call_id]
      functionPass_edges)

lemma transform_call_id_edges:
  "filter (\<lambda>e. edge_id e = callId i) (edges (transformDataToGraph lc props fs)) =
   (if showRelationships fs \<and> i < length (function_calls (relationshipsOf props))
    then callEdgesOf (nodeMap (buildEntities lc props fs)) i
           (function_calls (relationshipsOf props) ! i)
    else [])"
proof -
  let ?st = "buildEntities lc props fs"
  let ?P = "\<lambda>e. edge_id e = callId i"
  have b: "filter ?P (edges ?st) = []"
  proof -
    have "filter ?P (edges ?st) = filter ?P []"
      by (rule filter_weaker [where Q = "\<lambda>e. prefix ''call-'' (edge_id e)"])
         (simp_all add: buildEntities_no_call_id)
    then show ?thesis by simp
  qed
  show ?thesis
  proof (cases "showRelationships fs")
    case False
    then show ?thesis by (simp add: transform_edges addRelationships_def b)
  next
    case True
    let ?st1 = "forEach addFunctionCall 0 (function_calls (relationshipsOf props)) ?st"
    have "filter ?P (edges (forEach addMethodCall 0 (method_calls (relationshipsOf props)) ?st1)) =
          filter ?P (edges ?st1)"
      by (rule filter_weaker [where Q = "\<lambda>e. prefix ''call-'' (edge_id e)"])
         (simp_all add: forEach_edges_filter [OF addMethodCall_no_call_id])
    also have "\<dots> = (if i < length (function_calls (relationshipsOf props))
                      then callEdgesOf (nodeMap ?st) i (function_calls (relationshipsOf props) ! i)
                      else [])"
      using filter_callEdges_enumerate [of i "nodeMap ?st" 0 "function_calls (relationshipsOf props)"]
      by (simp add: forEach_addFunctionCall_edges [OF registryInv_buildEntities] b)
    finally show ?thesis
      using True by (simp add: transform_edges addRelationships_def)
  qed
qed

lemma includesStr_sublist: "includesStr s t \<longleftrightarrow> sublist t s"
  by (induction s) (simp_all add: sublist_Cons_right)

lemma matchesSearch_containsCaseInsensitive:
  assumes "lc [] = []"
  shows "matchesSearch lc needle nm = containsCaseInsensitive lc needle nm"
  using assms
  by (cases needle) (simp_all add: matchesSearch_def containsCaseInsensitive_def includesStr_sublist)

lemma buildEntities_class_kind:
  assumes "n \<in> set (nodes (buildEntities lc props fs))" "node_type n = Class"
    "\<not> prefix ''class-'' (node_id n)"
  shows "n = stubNode (baseStubId (label n)) (label n)"
proof -
  have "nodeWf n"
    using registryInv_buildEntities [of lc props fs] assms(1) unfolding registryInv_def by blast
  with assms(2,3) show ?thesis by (simp add: nodeWf_def)
qed

lemma forEach_addFunction_nodeMap_None:
  assumes "nodeMap st u = None"
    and "\<forall>f \<in> set fns. matchesSearch lc t (name f) \<longrightarrow> name f \<noteq> u"
  shows "nodeMap (forEach (addFunction lc t) k fns st) u = None"
  using assms by (induction fns arbitrary: k st) (auto simp: addFunction_def)

lemma functionPass_unregistered:
  assumes "\<forall>f \<in> set (visibleFunctions lc props fs). name f \<noteq> u"
  shows "nodeMap (functionPass lc props fs) u = None"
proof (cases "showFunctions fs")
  case False
  then show ?thesis by (simp add: functionPass_def emptyState_def)
next
  case True
  with assms have "\<forall>f \<in> set (functions' props). matchesSearch lc (searchTerm fs) (name f) \<longrightarrow> name f \<noteq> u"
    by (simp add: visibleFunctions_def)
  from forEach_addFunction_nodeMap_None [OF _ this, of emptyState 0] True
  show ?thesis by (simp add: functionPass_def emptyState_def)
qed

lemma stubState_addMethod:
  "stubState u r st \<Longrightarrow> stubState u r (addMethod lc t ci m j st)"
  by (simp add: stubState_def registryInv_addMethod addMethod_nodeMap)

lemma stubState_addBase:
  assumes "stubState u r st"
  shows "stubState u r (addBase ci b j st)"
proof -
  from assms have inv: "registryInv st" by (simp add: stubState_def)
  have "nodeMap (addBase ci b j st) u = Some (baseStubId u) \<or>
        (\<not> r \<and> nodeMap (addBase ci b j st) u = None)"
    using assms by (cases "nodeMap st b") (auto simp: addBase_closed [OF inv] stubState_def)
  with registryInv_addBase [OF inv] show ?thesis by (simp add: stubState_def)
qed

lemma stubState_addBase_self:
  assumes "stubState u r st"
  shows "stubState u True (addBase ci u j st)"
    and "edges (addBase ci u j st) = edges st @ [inheritsEdge (classId ci) (baseStubId u) j]"
proof -
  from assms have inv: "registryInv st" by (simp add: stubState_def)
  have "nodeMap (addBase ci u j st) u = Some (baseStubId u)"
    using assms by (cases "nodeMap st u") (auto simp: addBase_closed [OF inv] stubState_def)
  with registryInv_addBase [OF inv] show "stubState u True (addBase ci u j st)"
    by (simp add: stubState_def)
  show "edges (addBase ci u j st) = edges st @ [inheritsEdge (classId ci) (baseStubId u) j]"
    using assms by (cases "nodeMap st u") (auto simp: addBase_closed [OF inv] stubState_def)
qed

lemma stubState_class_push:
  assumes "stubState u r st" "name c \<noteq> u"
  shows "stubState u r (st\<lparr>nodes := nodes st @ [classNode i c],
                           nodeMap := (nodeMap st)(name c \<mapsto> classId i)\<rparr>)"
proof -
  from assms have inv: "registryInv st" by (simp add: stubState_def)
  from registryInv_push_register [OF inv, of "classNode i c" "name c"] assms
  show ?thesis by (simp add: stubState_def)
qed

lemma stubState_after_methods:
  assumes "stubState u r st" "name c \<noteq> u"
  shows "stubState u r
    (if showMethods fs
     then forEach (addMethod lc (searchTerm fs) i) 0 (methods c)
            (st\<lparr>nodes := nodes st @ [classNode i c],
                nodeMap := (nodeMap st)(name c \<mapsto> classId i)\<rparr>)
     else st\<lparr>nodes := nodes st @ [classNode i c],
             nodeMap := (nodeMap st)(name c \<mapsto> classId i)\<rparr>)"
proof -
  let ?st1 = "st\<lparr>nodes := nodes st @ [classNode i c],
                 nodeMap := (nodeMap st)(name c \<mapsto> classId i)\<rparr>"
  have 1: "stubState u r ?st1" by (rule stubState_class_push [OF assms])
  have "stubState u r (forEach (addMethod lc (searchTerm fs) i) 0 (methods c) ?st1)"
    using 1 stubState_addMethod by (rule forEach_pred [where P = "stubState u r"])
  with 1 show ?thesis by simp
qed

lemma stubState_addClass:
  assumes "stubState u r st" "name c \<noteq> u"
  shows "stubState u r (addClass lc fs c i st)"
proof (cases "matchesSearch lc (searchTerm fs) (name c)")
  case False
  with assms show ?thesis by (simp add: addClass_def)
next
  case True
  let ?st2 = "if showMethods fs
     then forEach (addMethod lc (searchTerm fs) i) 0 (methods c)
            (st\<lparr>nodes := nodes st @ [classNode i c],
                nodeMap := (nodeMap st)(name c \<mapsto> classId i)\<rparr>)
     else st\<lparr>nodes := nodes st @ [classNode i c],
             nodeMap := (nodeMap st)(name c \<mapsto> classId i)\<rparr>"
  have 2: "stubState u r ?st2" by (rule stubState_after_methods [OF assms])
  have "stubState u r (forEach (addBase i) 0 (bases c) ?st2)"
    using 2 stubState_addBase by (rule forEach_pred [where P = "stubState u r"])
  with True 2 show ?thesis by (simp add: addClass_def Let_def)
qed

lemma classId_inj [simp]: "classId i = classId j \<longleftrightarrow> i = j"
  by (simp add: classId_def)

lemma addClass_inherits_other:
  assumes "j \<noteq> i"
  shows "filter (\<lambda>e. edge_type e = Inherits \<and> source e = classId i) (edges (addClass lc fs c j st)) =
         filter (\<lambda>e. edge_type e = Inherits \<and> source e = classId i) (edges st)"
proof -
  let ?P = "\<lambda>e. edge_type e = Inherits \<and> source e = classId i"
  have m: "filter ?P (edges (addMethod lc t j x k s)) = filter ?P (edges s)" for t x k s
    by (simp add: addMethod_def)
  have b: "filter ?P (edges (addBase j x k s)) = filter ?P (edges s)" for x k s
    using assms by (simp add: addBase_edges)
  show ?thesis
    by (simp add: addClass_def Let_def forEach_edges_filter [OF m] forEach_edges_filter [OF b])
qed

lemma addClass_stub_owner:
  assumes st: "stubState u r st" and c: "name c \<noteq> u" "bases c = [u]"
    "matchesSearch lc (searchTerm fs) (name c)"
  shows "stubState u True (addClass lc fs c i st)"
    and "filter (\<lambda>e. edge_type e = Inherits \<and> source e = classId i) (edges (addClass lc fs c i st)) =
         filter (\<lambda>e. edge_type e = Inherits \<and> source e = classId i) (edges st) @
           [inheritsEdge (classId i) (baseStubId u) 0]"
proof -
  let ?P = "\<lambda>e. edge_type e = Inherits \<and> source e = classId i"
  let ?st1 = "st\<lparr>nodes := nodes st @ [classNode i c],
                 nodeMap := (nodeMap st)(name c \<mapsto> classId i)\<rparr>"
  let ?st2 = "if showMethods fs
     then forEach (addMethod lc (searchTerm fs) i) 0 (methods c) ?st1 else ?st1"
  have 2: "stubState u r ?st2" by (rule stubState_after_methods [OF st c(1)])
  have m: "filter ?P (edges (addMethod lc t i x k s)) = filter ?P (edges s)" for t x k s
    by (simp add: addMethod_def)
  have e2: "filter ?P (edges ?st2) = filter ?P (edges st)"
    by (simp add: forEach_edges_filter [OF m])
  have a: "addClass lc fs c i st = addBase i u 0 ?st2"
    using c by (simp add: addClass_def Let_def)
  show "stubState u True (addClass lc fs c i st)"
    unfolding a by (rule stubState_addBase_self(1) [OF 2])
  show "filter ?P (edges (addClass lc fs c i st)) =
        filter ?P (edges st) @ [inheritsEdge (classId i) (baseStubId u) 0]"
    unfolding a stubState_addBase_self(2) [OF 2] using e2 by simp
qed

lemma forEach_idx_inv:
  assumes "Q k st"
    and "\<And>j s. j < length xs \<Longrightarrow> Q (k + j) s \<Longrightarrow> Q (Suc (k + j)) (f (xs ! j) (k + j) s)"
  shows "Q (k + length xs) (forEach f k xs st)"
  using assms
proof (induction xs arbitrary: k st)
  case Nil
  then show ?case by simp
next
  case (Cons x xs)
  have 1: "Q (Suc k) (f x k st)"
    using Cons.prems(2) [of 0 st] Cons.prems(1) by simp
  have "Q (Suc k + length xs) (forEach f (Suc k) xs (f x k st))"
  proof (rule Cons.IH [OF 1])
    fix j s
    assume "j < length xs" "Q (Suc k + j) s"
    with Cons.prems(2) [of "Suc j" s]
    show "Q (Suc (Suc k + j)) (f (xs ! j) (Suc k + j) s)" by simp
  qed
  then show ?case by simp
qed

lemma nodeWf_stub_id:
  assumes "nodeWf n" "prefix ''base-'' (node_id n)"
  shows "n = stubNode (baseStubId (label n)) (label n)"
proof (cases "node_type n")
  case Function
  with assms show ?thesis by (auto simp: nodeWf_def prefix_def)
next
  case Method
  with assms show ?thesis by (auto simp: nodeWf_def prefix_def)
next
  case Class
  with assms show ?thesis by (auto simp: nodeWf_def prefix_def)
qed

lemma registered_stub_node:
  assumes inv: "registryInv st" and reg: "nodeMap st u = Some (baseStubId u)"
  shows "filter (\<lambda>n. node_id n = baseStubId u) (nodes st) = [stubNode (baseStubId u) u]"
proof -
  let ?xs = "filter (\<lambda>n. node_id n = baseStubId u) (nodes st)"
  from inv have "length ?xs \<le> (case nodeMap st u of None \<Rightarrow> 0 | Some v \<Rightarrow> 1)"
    unfolding registryInv_def by blast
  with reg have le: "length ?xs \<le> 1" by simp
  from inv reg obtain n where n: "n \<in> set (nodes st)" "node_id n = baseStubId u"
    unfolding registryInv_def by blast
  then have "n \<in> set ?xs" by simp
  with le have xs: "?xs = [n]"
    by (cases ?xs) (auto simp: length_Suc_conv)
  from inv n(1) have wf: "nodeWf n" unfolding registryInv_def by blast
  from n(2) have "prefix ''base-'' (node_id n)" by (simp add: baseStubId_def)
  from nodeWf_stub_id [OF wf this] have eq: "n = stubNode (baseStubId (label n)) (label n)" .
  then have "node_id n = baseStubId (label n)" by (metis stubNode_sel(1))
  with n(2) have "label n = u" by simp
  with eq xs show ?thesis by simp
qed

lemma buildEntities_stub_owner:
  assumes sc: "showClasses fs"
    and i: "i < length (classes props)"
    and b: "bases (classes props ! i) = [u]"
    and m: "matchesSearch lc (searchTerm fs) (name (classes props ! i))"
    and nc: "\<forall>c \<in> set (classes props). name c \<noteq> u"
    and nf: "\<forall>f \<in> set (visibleFunctions lc props fs). name f \<noteq> u"
  shows "stubState u True (buildEntities lc props fs)"
    and "filter (\<lambda>e. edge_type e = Inherits \<and> source e = classId i)
           (edges (buildEntities lc props fs)) = [inheritsEdge (classId i) (baseStubId u) 0]"
proof -
  let ?P = "\<lambda>e. edge_type e = Inherits \<and> source e = classId i"
  let ?E = "inheritsEdge (classId i) (baseStubId u) 0"
  let ?Q = "\<lambda>j s. stubState u (i < j) s \<and> filter ?P (edges s) = (if i < j then [?E] else [])"
  let ?st0 = "functionPass lc props fs"
  have 0: "?Q 0 ?st0"
    by (simp add: stubState_def functionPass_registryInv functionPass_unregistered [OF nf]
        functionPass_edges)
  have "?Q (0 + length (classes props)) (forEach (addClass lc fs) 0 (classes props) ?st0)"
  proof (rule forEach_idx_inv [where Q = ?Q, OF 0])
    fix j s
    assume j: "j < length (classes props)" and q: "?Q (0 + j) s"
    let ?c = "classes props ! j"
    from j nc have name: "name ?c \<noteq> u" by simp
    show "?Q (Suc (0 + j)) (addClass lc fs (classes props ! j) (0 + j) s)"
    proof (cases "j = i")
      case True
      with q have s: "stubState u False s" "filter ?P (edges s) = []" by simp_all
      from addClass_stub_owner [OF s(1) name, of lc fs i] b m True s(2)
      show ?thesis by simp
    next
      case False
      from q have s: "stubState u (i < j) s" by simp
      from False have lt: "(i < Suc j) = (i < j)" by auto
      from stubState_addClass [OF s name, of lc fs j]
        addClass_inherits_other [OF False, of lc fs ?c s] q
      show ?thesis by (simp add: lt)
    qed
  qed
  with i sc show "stubState u True (buildEntities lc props fs)"
    and "filter ?P (edges (buildEntities lc props fs)) = [?E]"
    by (simp_all add: buildEntities_functionPass)
qed

section \<open>The claims\<close>

text \<open>
  In every statement \<open>lc\<close> is the case mapping handed to the build in the place of
  \<open>String.prototype.toLowerCase\<close>. It is arbitrary, except where a hypothesis says
  otherwise; the closed examples use \<open>asciiLower\<close> on ASCII names.
\<close>

subsection \<open>C1\<close>

text \<open>
  C1. Node ids depend only on the original array position. For every entity model and
  every filter state, the function nodes of the build are exactly the nodes
  \<open>functionNode i f\<close> of the functions that pass the filter, the class nodes with a
  \<open>class-\<close> id are the nodes \<open>classNode i c\<close> of the passing classes, and the method nodes
  are the nodes \<open>methodNode i j m\<close> of the passing methods of the passing classes, where
  \<open>i\<close> and \<open>j\<close> are the positions in the original arrays (\<open>enumerate 0\<close> pairs every
  element with its position before anything is filtered out). The three node constructors
  take no flag and no search term, and their ids are \<open>func-i\<close>, \<open>class-i\<close> and
  \<open>method-i-j\<close>: the node of an original entity is the same node, with the same id, in
  every build that contains it.
\<close>

theorem node_ids_fixed_by_position:
  "filter (\<lambda>n. node_type n = Function) (nodes (transformDataToGraph lc props fs)) =
     (if showFunctions fs
      then map (\<lambda>(i, f). functionNode i f)
             (filter (\<lambda>(i, f). matchesSearch lc (searchTerm fs) (name f))
                (enumerate 0 (functions' props)))
      else []) \<and>
   filter (\<lambda>n. node_type n = Class \<and> prefix ''class-'' (node_id n))
       (nodes (transformDataToGraph lc props fs)) =
     (if showClasses fs
      then map (\<lambda>(i, c). classNode i c)
             (filter (\<lambda>(i, c). matchesSearch lc (searchTerm fs) (name c))
                (enumerate 0 (classes props)))
      else []) \<and>
   filter (\<lambda>n. node_type n = Method) (nodes (transformDataToGraph lc props fs)) =
     (if showClasses fs \<and> showMethods fs
      then concat (map (\<lambda>(i, c). map (\<lambda>(j, m). methodNode i j m)
                          (filter (\<lambda>(j, m). matchesSearch lc (searchTerm fs) (name m))
                             (enumerate 0 (methods c))))
             (filter (\<lambda>(i, c). matchesSearch lc (searchTerm fs) (name c))
                (enumerate 0 (classes props))))
      else []) \<and>
   node_id (functionNode i f) = ''func-'' @ showNat i \<and>
   node_id (classNode i c) = ''class-'' @ showNat i \<and>
   node_id (methodNode i j m) = ''method-'' @ showNat i @ ''-'' @ showNat j"
  by (simp only: transform_nodes buildEntities_function_nodes buildEntities_class_nodes
      buildEntities_method_nodes functionNode_sel classNode_sel methodNode_sel
      funcId_def classId_def methodId_def simp_thms)

text \<open>
  C1 on the two functions \<open>f\<close> and \<open>g\<close>: searching for \<open>g\<close> leaves the node of \<open>g\<close> alone,
  still with the id \<open>func-1\<close> it has in the unfiltered build.
\<close>

theorem node_ids_fixed_by_position_witness:
  "filter (\<lambda>n. node_type n = Function)
     (nodes (transformDataToGraph asciiLower scenarioCalls (allVisible ''g''))) =
     [functionNode 1 (fnNamed ''g'')] \<and>
   node_id (functionNode 1 (fnNamed ''g'')) = ''func-1'' \<and>
   map node_id (nodes (transformDataToGraph asciiLower scenarioCalls (allVisible []))) =
     [''func-0'', ''func-1'']"
proof -
  have s: "showFunctions (allVisible ''g'')" by (simp add: allVisible_def)
  have v: "map (\<lambda>(i, f). functionNode i f)
             (filter (\<lambda>(i, f). matchesSearch asciiLower (searchTerm (allVisible ''g'')) (name f))
                (enumerate 0 (functions' scenarioCalls))) = [functionNode 1 (fnNamed ''g'')]"
    by code_simp
  have n: "''func-'' @ showNat 1 = ''func-1''" by code_simp
  have a: "map node_id (nodes (transformDataToGraph asciiLower scenarioCalls (allVisible []))) =
     [''func-0'', ''func-1'']"
    by code_simp
  from node_ids_fixed_by_position [of asciiLower scenarioCalls "allVisible ''g''" 1 "fnNamed ''g''"] s v n
  have "filter (\<lambda>n. node_type n = Function)
     (nodes (transformDataToGraph asciiLower scenarioCalls (allVisible ''g''))) =
     [functionNode 1 (fnNamed ''g'')] \<and>
   node_id (functionNode 1 (fnNamed ''g'')) = ''func-1''"
    by simp
  with a show ?thesis by blast
qed

subsection \<open>C2\<close>

text \<open>
  C2, amended. With \<open>showClasses\<close> on, the class-kind nodes that carry a \<open>class-\<close> id are
  exactly the nodes of the parsed classes whose name contains the search term
  case-insensitively (\<open>containsCaseInsensitive\<close>), one per such class, in the original
  order; every other class-kind node is the synthetic stub of its label (id \<open>base-\<close>
  followed by the label, degenerate payload). The case mapping is arbitrary but for one
  fact: it maps the empty string to the empty string, as \<open>String.prototype.toLowerCase\<close>
  does, so that the \<open>!searchTerm\<close> shortcut of the code agrees with containment of the
  empty term.
\<close>

theorem class_nodes_match_search:
  assumes "showClasses fs" and "lc [] = []"
  shows "filter (\<lambda>n. node_type n = Class \<and> prefix ''class-'' (node_id n))
           (nodes (transformDataToGraph lc props fs)) =
         map (\<lambda>(i, c). classNode i c)
           (filter (\<lambda>(i, c). containsCaseInsensitive lc (searchTerm fs) (name c))
              (enumerate 0 (classes props))) \<and>
         (\<forall>n \<in> set (nodes (transformDataToGraph lc props fs)).
            node_type n = Class \<and> \<not> prefix ''class-'' (node_id n) \<longrightarrow>
            n = stubNode (baseStubId (label n)) (label n))"
  using assms(1) buildEntities_class_kind [of _ lc props fs]
  by (simp add: transform_nodes buildEntities_class_nodes
      matchesSearch_containsCaseInsensitive [of lc, OF assms(2)])

text \<open>The amended C2 on the class \<open>B\<close> with base \<open>A\<close>, searching for \<open>b\<close>.\<close>

theorem class_nodes_match_search_witness:
  "showClasses (allVisible ''b'') \<and> asciiLower [] = [] \<and>
   filter (\<lambda>n. node_type n = Class \<and> prefix ''class-'' (node_id n))
     (nodes (transformDataToGraph asciiLower scenarioClass (allVisible ''b''))) =
   [classNode 0 (clsNamed ''B'' [''A''] [fnNamed ''m''])]"
proof -
  have h: "showClasses (allVisible ''b'')" by (simp add: allVisible_def)
  have e: "asciiLower [] = []" by (simp add: asciiLower_def)
  have "map (\<lambda>(i, c). classNode i c)
           (filter (\<lambda>(i, c). containsCaseInsensitive asciiLower (searchTerm (allVisible ''b''))
                               (name c))
              (enumerate 0 (classes scenarioClass))) =
        [classNode 0 (clsNamed ''B'' [''A''] [fnNamed ''m''])]"
    by code_simp
  with class_nodes_match_search [of "allVisible ''b''" asciiLower scenarioClass, OF h e] h e show ?thesis by simp
qed

text \<open>
  C2 as stated fails, since a stub is a class-kind node as well: searching for \<open>b\<close> in the
  model whose only class is \<open>B\<close> with base \<open>A\<close>, the class-kind nodes are labelled \<open>B\<close> and
  \<open>A\<close>, while \<open>B\<close> is the only parsed class whose name contains \<open>b\<close>.
\<close>

theorem class_kind_nodes_counterexample:
  "showClasses (allVisible ''b'') \<and>
   map label (filter (\<lambda>n. node_type n = Class)
     (nodes (transformDataToGraph asciiLower scenarioClass (allVisible ''b'')))) = [''B'', ''A''] \<and>
   map name (filter (\<lambda>c. containsCaseInsensitive asciiLower ''b'' (name c))
     (classes scenarioClass)) = [''B'']"
  by code_simp

subsection \<open>C3\<close>

text \<open>
  C3, amended. Let the class at position \<open>i\<close> be visible (\<open>showClasses\<close> on, name passing
  the search) with \<open>bases = [u]\<close>, let no parsed class be named \<open>u\<close> and let no visible
  function be named \<open>u\<close>. Then the build has exactly one node with id \<open>base-u\<close>, the stub of
  \<open>u\<close>, and exactly one \<open>inherits\<close> edge leaving that class, which goes to the stub. In every
  build, a stub id \<open>base-b\<close> occurs at most once, and every node with a \<open>base-\<close> id is a
  class-kind node labelled with the base name whose payload has no bases, no methods and
  no docstring.
\<close>

theorem stub_created_once:
  "(showClasses fs \<and> i < length (classes props) \<and> bases (classes props ! i) = [u] \<and>
    matchesSearch lc (searchTerm fs) (name (classes props ! i)) \<and>
    (\<forall>c \<in> set (classes props). name c \<noteq> u) \<and>
    (\<forall>f \<in> set (visibleFunctions lc props fs). name f \<noteq> u) \<longrightarrow>
      filter (\<lambda>n. node_id n = ''base-'' @ u) (nodes (transformDataToGraph lc props fs)) =
        [stubNode (''base-'' @ u) u] \<and>
      filter (\<lambda>e. edge_type e = Inherits \<and> source e = classId i)
        (edges (transformDataToGraph lc props fs)) =
        [inheritsEdge (classId i) (''base-'' @ u) 0]) \<and>
   length (filter (\<lambda>n. node_id n = ''base-'' @ b) (nodes (transformDataToGraph lc props fs))) \<le> 1 \<and>
   (\<forall>n \<in> set (nodes (transformDataToGraph lc props fs)).
      prefix ''base-'' (node_id n) \<longrightarrow>
        node_type n = Class \<and> node_id n = ''base-'' @ label n \<and>
        nodeData n = ClassData \<lparr>name = label n, docstring = None, bases = [], methods = []\<rparr>)"
proof (intro conjI impI ballI)
  assume a: "showClasses fs \<and> i < length (classes props) \<and> bases (classes props ! i) = [u] \<and>
    matchesSearch lc (searchTerm fs) (name (classes props ! i)) \<and>
    (\<forall>c \<in> set (classes props). name c \<noteq> u) \<and>
    (\<forall>f \<in> set (visibleFunctions lc props fs). name f \<noteq> u)"
  then have st: "stubState u True (buildEntities lc props fs)"
    and e: "filter (\<lambda>e. edge_type e = Inherits \<and> source e = classId i)
           (edges (buildEntities lc props fs)) = [inheritsEdge (classId i) (baseStubId u) 0]"
    using buildEntities_stub_owner [of fs i props u] by blast+
  from st have "filter (\<lambda>n. node_id n = baseStubId u) (nodes (buildEntities lc props fs)) =
                [stubNode (baseStubId u) u]"
    by (intro registered_stub_node) (simp_all add: stubState_def)
  then show "filter (\<lambda>n. node_id n = ''base-'' @ u) (nodes (transformDataToGraph lc props fs)) =
        [stubNode (''base-'' @ u) u]"
    by (simp add: transform_nodes baseStubId_def)
  have "filter (\<lambda>e. edge_type e = Inherits \<and> source e = classId i)
          (edges (transformDataToGraph lc props fs)) =
        filter (\<lambda>e. edge_type e = Inherits \<and> source e = classId i)
          (edges (buildEntities lc props fs))"
    unfolding transform_edges
    by (intro filter_weaker [OF addRelationships_edges_filter]) simp
  with e show "filter (\<lambda>e. edge_type e = Inherits \<and> source e = classId i)
        (edges (transformDataToGraph lc props fs)) = [inheritsEdge (classId i) (''base-'' @ u) 0]"
    by (simp add: baseStubId_def)
next
  have "length (filter (\<lambda>n. node_id n = baseStubId b) (nodes (buildEntities lc props fs))) \<le>
        (case nodeMap (buildEntities lc props fs) b of None \<Rightarrow> 0 | Some v \<Rightarrow> 1)"
    using registryInv_buildEntities [of lc props fs] unfolding registryInv_def by blast
  also have "\<dots> \<le> 1" by (simp split: option.splits)
  finally show "length (filter (\<lambda>n. node_id n = ''base-'' @ b)
                  (nodes (transformDataToGraph lc props fs))) \<le> 1"
    by (simp add: transform_nodes baseStubId_def)
next
  fix n
  assume n: "n \<in> set (nodes (transformDataToGraph lc props fs))" "prefix ''base-'' (node_id n)"
  then have "nodeWf n"
    using registryInv_buildEntities [of lc props fs] unfolding registryInv_def
    by (simp add: transform_nodes)
  from nodeWf_stub_id [OF this n(2)] have eq: "n = stubNode (baseStubId (label n)) (label n)" .
  show "node_type n = Class" by (subst eq) simp
  show "node_id n = ''base-'' @ label n"
    using arg_cong [OF eq, of node_id] by (simp add: baseStubId_def)
  show "nodeData n = ClassData \<lparr>name = label n, docstring = None, bases = [], methods = []\<rparr>"
    using arg_cong [OF eq, of nodeData] by simp
qed

text \<open>The amended C3 on the single class \<open>A\<close> with base \<open>Unknown\<close>.\<close>

theorem stub_created_once_witness:
  "showClasses (allVisible []) \<and> bases (classes scenarioStub ! 0) = [''Unknown''] \<and>
   filter (\<lambda>n. node_id n = ''base-Unknown'') (nodes (transformDataToGraph asciiLower scenarioStub (allVisible []))) =
     [stubNode ''base-Unknown'' ''Unknown''] \<and>
   filter (\<lambda>e. edge_type e = Inherits \<and> source e = classId 0)
     (edges (transformDataToGraph asciiLower scenarioStub (allVisible []))) =
     [inheritsEdge (classId 0) ''base-Unknown'' 0]"
proof -
  have h: "showClasses (allVisible []) \<and> 0 < length (classes scenarioStub) \<and>
    bases (classes scenarioStub ! 0) = [''Unknown''] \<and>
    matchesSearch asciiLower (searchTerm (allVisible [])) (name (classes scenarioStub ! 0)) \<and>
    (\<forall>c \<in> set (classes scenarioStub). name c \<noteq> ''Unknown'') \<and>
    (\<forall>f \<in> set (visibleFunctions asciiLower scenarioStub (allVisible [])). name f \<noteq> ''Unknown'')"
    by code_simp
  from stub_created_once [of "allVisible []" 0 scenarioStub "''Unknown''" asciiLower] h
  show ?thesis by simp
qed

text \<open>
  C3 as stated fails when a visible function bears the base name: the base is resolved
  through \<open>nodeMap\<close>, which holds function names too. With a function \<open>Unknown\<close> beside the
  single class \<open>A\<close> with base \<open>Unknown\<close>, no node \<open>base-Unknown\<close> is built and the \<open>inherits\<close>
  edge goes to the function node \<open>func-0\<close>.
\<close>

theorem stub_shadowed_by_function_counterexample:
  "map name (classes scenarioShadowed) = [''A''] \<and>
   map bases (classes scenarioShadowed) = [[''Unknown'']] \<and>
   map node_id (nodes (transformDataToGraph asciiLower scenarioShadowed (allVisible []))) =
     [''func-0'', ''class-0''] \<and>
   edges (transformDataToGraph asciiLower scenarioShadowed (allVisible [])) =
     [\<lparr>edge_id = ''inherit-class-0-func-0-0'', source = ''class-0'', target = ''func-0'',
       edge_type = Inherits\<rparr>]"
  by code_simp

subsection \<open>C4\<close>

text \<open>
  C4. No \<open>calls\<close> edge of a built graph has its source equal to its target, whether it
  comes from \<open>function_calls\<close> (guarded by \<open>callerId !== calleeId\<close>) or from \<open>method_calls\<close>
  (the source is a registered id, never that of a method node; the target is a method node).
\<close>

theorem calls_edges_no_self_loop:
  "\<forall>e \<in> set (edges (transformDataToGraph lc props fs)).
     edge_type e = Calls \<longrightarrow> source e \<noteq> target e"
proof -
  let ?st = "buildEntities lc props fs"
  have inv: "registryInv ?st" by (rule registryInv_buildEntities)
  have "filter (\<lambda>e. edge_type e = Calls) (edges ?st) = []"
    by (rule buildEntities_no_calls)
  then have old: "\<forall>e \<in> set (edges ?st). edge_type e = Calls \<longrightarrow> source e \<noteq> target e"
    by (simp add: filter_empty_conv)
  have "\<forall>e \<in> set (edges (addRelationships props fs ?st)).
          edge_type e = Calls \<longrightarrow> source e \<noteq> target e"
  proof (rule addRelationships_edges_all [OF inv old])
    fix i k1 k2 a b
    assume "a \<noteq> (b::string)"
    then show "edge_type (callEdge i a b) = Calls \<longrightarrow> source (callEdge i a b) \<noteq> target (callEdge i a b)"
      by simp
  next
    fix i k v mn
    assume "nodeMap ?st k = Some v" "mn \<in> set (nodes ?st)" "node_type mn = Method"
    from registered_not_method_node [OF inv this]
    show "edge_type (methodCallEdge i v (node_id mn)) = Calls \<longrightarrow>
          source (methodCallEdge i v (node_id mn)) \<noteq> target (methodCallEdge i v (node_id mn))"
      by simp
  qed
  then show ?thesis by (simp add: transform_edges)
qed

text \<open>
  C4 on a model where \<open>f\<close> calls itself and \<open>B\<close>: the self call (record 0) leaves no edge.
\<close>

theorem calls_edges_no_self_loop_witness:
  "callEdge 1 ''func-0'' ''class-0'' \<in> set (edges (transformDataToGraph asciiLower scenarioMixed (allVisible []))) \<and>
   edge_type (callEdge 1 ''func-0'' ''class-0'') = Calls \<and>
   source (callEdge 1 ''func-0'' ''class-0'') \<noteq> target (callEdge 1 ''func-0'' ''class-0'') \<and>
   map edge_id (edges (transformDataToGraph asciiLower scenarioMixed (allVisible []))) =
     [''edge-class-0-method-0-0'', ''call-1'', ''method-call-0'']"
proof -
  let ?e = "callEdge 1 ''func-0'' ''class-0''"
  have m: "?e \<in> set (edges (transformDataToGraph asciiLower scenarioMixed (allVisible [])))"
    by (simp add: scenarioMixed_graph)
  have t: "edge_type ?e = Calls" by simp
  from calls_edges_no_self_loop [of asciiLower scenarioMixed "allVisible []"] m t
  have "source ?e \<noteq> target ?e" by blast
  moreover have "map edge_id (edges (transformDataToGraph asciiLower scenarioMixed (allVisible []))) =
     [''edge-class-0-method-0-0'', ''call-1'', ''method-call-0'']"
    by code_simp
  ultimately show ?thesis using m t by blast
qed

subsection \<open>C5\<close>

text \<open>
  C5. With \<open>showRelationships\<close> on, the built graph has an edge with id \<open>call-i\<close> if and
  only if \<open>i\<close> is the index of a \<open>function_calls\<close> record whose callee is non-empty and
  registered, whose caller is present (not null, not empty) and registered, and whose two
  resolved ids differ (\<open>resolvableCall\<close>, read against the registry left by the entity
  passes); that edge is then the only one with this id and is the \<open>calls\<close> edge from the
  caller's id to the callee's id. Every other record leaves no edge. For functions \<open>f\<close>, \<open>g\<close>
  and the single record \<open>f\<close> calls \<open>g\<close>, the only \<open>calls\<close> edge is \<open>call-0\<close> from \<open>func-0\<close> to
  \<open>func-1\<close>.
\<close>

theorem function_call_edge_iff:
  assumes "showRelationships fs"
  shows "((\<exists>e \<in> set (edges (transformDataToGraph lc props fs)). edge_id e = callId i) \<longleftrightarrow>
            i < length (function_calls (relationshipsOf props)) \<and>
            resolvableCall (nodeMap (buildEntities lc props fs))
              (function_calls (relationshipsOf props) ! i) \<noteq> None) \<and>
         filter (\<lambda>e. edge_id e = callId i) (edges (transformDataToGraph lc props fs)) =
           (if i < length (function_calls (relationshipsOf props))
            then (case resolvableCall (nodeMap (buildEntities lc props fs))
                         (function_calls (relationshipsOf props) ! i) of
                    Some (a, b) \<Rightarrow> [callEdge i a b]
                  | None \<Rightarrow> [])
            else []) \<and>
         filter (\<lambda>e. edge_type e = Calls)
           (edges (transformDataToGraph lc scenarioCalls (allVisible []))) =
           [\<lparr>edge_id = ''call-0'', source = ''func-0'', target = ''func-1'', edge_type = Calls\<rparr>]"
proof -
  let ?P = "\<lambda>e. edge_id e = callId i"
  let ?es = "edges (transformDataToGraph lc props fs)"
  have f: "filter ?P ?es =
           (if i < length (function_calls (relationshipsOf props))
            then (case resolvableCall (nodeMap (buildEntities lc props fs))
                         (function_calls (relationshipsOf props) ! i) of
                    Some (a, b) \<Rightarrow> [callEdge i a b]
                  | None \<Rightarrow> [])
            else [])"
    using assms by (simp add: transform_call_id_edges callEdgesOf_def)
  have "(\<exists>e \<in> set ?es. ?P e) \<longleftrightarrow> filter ?P ?es \<noteq> []"
    by (simp add: filter_empty_conv)
  also have "\<dots> \<longleftrightarrow> i < length (function_calls (relationshipsOf props)) \<and>
            resolvableCall (nodeMap (buildEntities lc props fs))
              (function_calls (relationshipsOf props) ! i) \<noteq> None"
    unfolding f by (auto split: option.splits)
  finally have iff: "(\<exists>e \<in> set ?es. ?P e) \<longleftrightarrow>
            i < length (function_calls (relationshipsOf props)) \<and>
            resolvableCall (nodeMap (buildEntities lc props fs))
              (function_calls (relationshipsOf props) ! i) \<noteq> None" .
  have sc: "filter (\<lambda>e. edge_type e = Calls)
           (edges (transformDataToGraph lc scenarioCalls (allVisible []))) =
           [\<lparr>edge_id = ''call-0'', source = ''func-0'', target = ''func-1'', edge_type = Calls\<rparr>]"
    by code_simp
  from iff f sc show ?thesis by blast
qed

text \<open>C5 on the two-function scenario, at record 0.\<close>

theorem function_call_edge_iff_witness:
  "showRelationships (allVisible []) \<and>
   (\<exists>e \<in> set (edges (transformDataToGraph asciiLower scenarioCalls (allVisible []))). edge_id e = callId 0) \<and>
   resolvableCall (nodeMap (buildEntities asciiLower scenarioCalls (allVisible [])))
     (function_calls (relationshipsOf scenarioCalls) ! 0) = Some (''func-0'', ''func-1'')"
proof -
  have h: "showRelationships (allVisible [])" by (simp add: allVisible_def)
  have r: "resolvableCall (nodeMap (buildEntities asciiLower scenarioCalls (allVisible [])))
     (function_calls (relationshipsOf scenarioCalls) ! 0) = Some (''func-0'', ''func-1'')"
    by code_simp
  have l: "0 < length (function_calls (relationshipsOf scenarioCalls))"
    by code_simp
  from function_call_edge_iff [OF h, of asciiLower scenarioCalls 0] r l
  have "\<exists>e \<in> set (edges (transformDataToGraph asciiLower scenarioCalls (allVisible []))). edge_id e = callId 0"
    by simp
  with h r show ?thesis by blast
qed

subsection \<open>C6\<close>

text \<open>
  C6. Switching \<open>showRelationships\<close> off leaves no \<open>calls\<close> edge (every edge derived
  from \<open>function_calls\<close> and \<open>method_calls\<close> is of that kind), while the \<open>contains\<close> and
  the \<open>inherits\<close> edges of a build are the same, in the same order, whether the flag is on
  or off, all other inputs being equal.
\<close>

theorem showRelationships_gates_only_calls:
  "filter (\<lambda>e. edge_type e = Calls)
     (edges (transformDataToGraph lc props (fs\<lparr>showRelationships := False\<rparr>))) = [] \<and>
   filter (\<lambda>e. edge_type e = Contains)
     (edges (transformDataToGraph lc props (fs\<lparr>showRelationships := True\<rparr>))) =
   filter (\<lambda>e. edge_type e = Contains)
     (edges (transformDataToGraph lc props (fs\<lparr>showRelationships := False\<rparr>))) \<and>
   filter (\<lambda>e. edge_type e = Inherits)
     (edges (transformDataToGraph lc props (fs\<lparr>showRelationships := True\<rparr>))) =
   filter (\<lambda>e. edge_type e = Inherits)
     (edges (transformDataToGraph lc props (fs\<lparr>showRelationships := False\<rparr>)))"
proof -
  let ?T = "transformDataToGraph lc props (fs\<lparr>showRelationships := True\<rparr>)"
  let ?F = "transformDataToGraph lc props (fs\<lparr>showRelationships := False\<rparr>)"
  have F: "edges ?F = edges (buildEntities lc props fs)"
    by (simp add: transform_edges addRelationships_def buildEntities_showRelationships)
  have nc: "filter (\<lambda>e. edge_type e \<noteq> Calls) (edges ?T) =
            filter (\<lambda>e. edge_type e \<noteq> Calls) (edges ?F)"
    by (simp add: F transform_edges addRelationships_edges_filter buildEntities_showRelationships)
  have "filter (\<lambda>e. edge_type e = k) (edges ?T) = filter (\<lambda>e. edge_type e = k) (edges ?F)"
    if "k \<noteq> Calls" for k
    using that by (intro filter_weaker [OF nc]) simp
  then show ?thesis
    by (simp add: F buildEntities_no_calls)
qed

subsection \<open>C7\<close>

text \<open>
  C7. With \<open>showMethods\<close> on, the number of \<open>contains\<close> edges is the sum, over the visible
  classes (\<open>showClasses\<close> on and name passing the search), of the number of their methods
  whose name passes the search. With \<open>showMethods\<close> off there is no method node and no
  \<open>contains\<close> edge, and the class nodes are those of the visible classes all the same.
\<close>

theorem contains_edge_count:
  "(showMethods fs \<longrightarrow>
      length (filter (\<lambda>e. edge_type e = Contains) (edges (transformDataToGraph lc props fs))) =
      sum_list (map (\<lambda>c. length (filter (\<lambda>m. matchesSearch lc (searchTerm fs) (name m)) (methods c)))
                  (visibleClasses lc props fs))) \<and>
   (\<not> showMethods fs \<longrightarrow>
      filter (\<lambda>n. node_type n = Method) (nodes (transformDataToGraph lc props fs)) = [] \<and>
      filter (\<lambda>e. edge_type e = Contains) (edges (transformDataToGraph lc props fs)) = [] \<and>
      filter (\<lambda>n. node_type n = Class \<and> prefix ''class-'' (node_id n))
        (nodes (transformDataToGraph lc props fs)) =
      map (\<lambda>(i, c). classNode i c)
        (filter (\<lambda>(i, c). showClasses fs \<and> matchesSearch lc (searchTerm fs) (name c))
           (enumerate 0 (classes props))))"
proof (intro conjI impI)
  assume sm: "showMethods fs"
  show "length (filter (\<lambda>e. edge_type e = Contains) (edges (transformDataToGraph lc props fs))) =
      sum_list (map (\<lambda>c. length (filter (\<lambda>m. matchesSearch lc (searchTerm fs) (name m)) (methods c)))
                  (visibleClasses lc props fs))"
  proof (cases "showClasses fs")
    case False
    then show ?thesis
      by (simp add: transform_edges_not_calls buildEntities_contains_edges visibleClasses_def)
  next
    case True
    have "length (concat (map (\<lambda>(i, c). map (\<lambda>(j, m). containsEdge (classId i) (methodId i j))
                  (filter (\<lambda>(j, m). matchesSearch lc (searchTerm fs) (name m))
                     (enumerate 0 (methods c))))
            (filter (\<lambda>(i, c). matchesSearch lc (searchTerm fs) (name c))
               (enumerate 0 (classes props))))) =
          sum_list (map (\<lambda>c. length (filter (\<lambda>m. matchesSearch lc (searchTerm fs) (name m)) (methods c)))
            (filter (\<lambda>c. matchesSearch lc (searchTerm fs) (name c)) (classes props)))"
      by (rule length_concat_enumerate) (simp add: length_filter_enumerate)
    with True sm show ?thesis
      by (simp add: transform_edges_not_calls buildEntities_contains_edges visibleClasses_def)
  qed
next
  assume "\<not> showMethods fs"
  then show "filter (\<lambda>n. node_type n = Method) (nodes (transformDataToGraph lc props fs)) = []"
    by (simp add: transform_nodes buildEntities_method_nodes)
next
  assume "\<not> showMethods fs"
  then show "filter (\<lambda>e. edge_type e = Contains) (edges (transformDataToGraph lc props fs)) = []"
    by (simp add: transform_edges_not_calls buildEntities_contains_edges)
next
  show "filter (\<lambda>n. node_type n = Class \<and> prefix ''class-'' (node_id n))
        (nodes (transformDataToGraph lc props fs)) =
      map (\<lambda>(i, c). classNode i c)
        (filter (\<lambda>(i, c). showClasses fs \<and> matchesSearch lc (searchTerm fs) (name c))
           (enumerate 0 (classes props)))"
    by (simp add: transform_nodes buildEntities_class_nodes del: filter_filter)
qed

text \<open>C7 on the class \<open>B\<close> with one method, with \<open>showMethods\<close> on and off.\<close>

theorem contains_edge_count_witness:
  "showMethods (allVisible []) \<and>
   length (filter (\<lambda>e. edge_type e = Contains)
     (edges (transformDataToGraph asciiLower scenarioClass (allVisible [])))) = 1 \<and>
   \<not> showMethods ((allVisible [])\<lparr>showMethods := False\<rparr>) \<and>
   filter (\<lambda>n. node_type n = Class \<and> prefix ''class-'' (node_id n))
     (nodes (transformDataToGraph asciiLower scenarioClass ((allVisible [])\<lparr>showMethods := False\<rparr>))) =
     [classNode 0 (clsNamed ''B'' [''A''] [fnNamed ''m''])] \<and>
   filter (\<lambda>e. edge_type e = Contains)
     (edges (transformDataToGraph asciiLower scenarioClass ((allVisible [])\<lparr>showMethods := False\<rparr>))) = []"
proof -
  let ?off = "(allVisible [])\<lparr>showMethods := False\<rparr>"
  have h1: "showMethods (allVisible [])" by (simp add: allVisible_def)
  have h2: "\<not> showMethods ?off" by simp
  have s: "sum_list (map (\<lambda>c. length (filter (\<lambda>m. matchesSearch asciiLower (searchTerm (allVisible [])) (name m))
                (methods c))) (visibleClasses asciiLower scenarioClass (allVisible []))) = 1"
    by code_simp
  have c: "map (\<lambda>(i, c). classNode i c)
        (filter (\<lambda>(i, c). showClasses ?off \<and> matchesSearch asciiLower (searchTerm ?off) (name c))
           (enumerate 0 (classes scenarioClass))) = [classNode 0 (clsNamed ''B'' [''A''] [fnNamed ''m''])]"
    by code_simp
  from contains_edge_count [of "allVisible []" asciiLower scenarioClass] h1 s
  have a: "length (filter (\<lambda>e. edge_type e = Contains)
     (edges (transformDataToGraph asciiLower scenarioClass (allVisible [])))) = 1"
    by simp
  from contains_edge_count [of ?off asciiLower scenarioClass] h2 c
  have b: "filter (\<lambda>n. node_type n = Class \<and> prefix ''class-'' (node_id n))
     (nodes (transformDataToGraph asciiLower scenarioClass ?off)) =
     [classNode 0 (clsNamed ''B'' [''A''] [fnNamed ''m''])] \<and>
   filter (\<lambda>e. edge_type e = Contains) (edges (transformDataToGraph asciiLower scenarioClass ?off)) = []"
    by simp
  from a b h1 h2 show ?thesis by blast
qed

subsection \<open>C9\<close>

text \<open>
  C9. In every built graph, the source and the target of every edge (\<open>contains\<close>,
  \<open>inherits\<close>, and \<open>calls\<close> of both origins) are ids of nodes of the same graph.
\<close>

theorem edges_referential_integrity:
  "\<forall>e \<in> set (edges (transformDataToGraph lc props fs)).
     source e \<in> node_id ` set (nodes (transformDataToGraph lc props fs)) \<and>
     target e \<in> node_id ` set (nodes (transformDataToGraph lc props fs))"
proof -
  let ?st = "buildEntities lc props fs"
  let ?ids = "node_id ` set (nodes ?st)"
  have inv: "registryInv ?st" by (rule registryInv_buildEntities)
  have old: "\<forall>e \<in> set (edges ?st). source e \<in> ?ids \<and> target e \<in> ?ids"
    using edgesResolved_buildEntities [of lc props fs] by (simp add: edgesResolved_def)
  have "\<forall>e \<in> set (edges (addRelationships props fs ?st)). source e \<in> ?ids \<and> target e \<in> ?ids"
  proof (rule addRelationships_edges_all [OF inv old])
    fix i k1 k2 a b
    assume "nodeMap ?st k1 = Some a" "nodeMap ?st k2 = Some b"
    then show "source (callEdge i a b) \<in> ?ids \<and> target (callEdge i a b) \<in> ?ids"
      using registered_in_nodes [OF inv] by simp
  next
    fix i k v mn
    assume "nodeMap ?st k = Some v" "mn \<in> set (nodes ?st)"
    then show "source (methodCallEdge i v (node_id mn)) \<in> ?ids \<and>
               target (methodCallEdge i v (node_id mn)) \<in> ?ids"
      using registered_in_nodes [OF inv] by simp
  qed
  then show ?thesis by (simp add: transform_edges transform_nodes)
qed

text \<open>C9 on the method-call edge from \<open>class-0\<close> to \<open>method-0-0\<close>.\<close>

theorem edges_referential_integrity_witness:
  "methodCallEdge 0 ''class-0'' ''method-0-0'' \<in>
     set (edges (transformDataToGraph asciiLower scenarioMixed (allVisible []))) \<and>
   ''class-0'' \<in> node_id ` set (nodes (transformDataToGraph asciiLower scenarioMixed (allVisible []))) \<and>
   ''method-0-0'' \<in> node_id ` set (nodes (transformDataToGraph asciiLower scenarioMixed (allVisible [])))"
proof -
  let ?e = "methodCallEdge 0 ''class-0'' ''method-0-0''"
  have m: "?e \<in> set (edges (transformDataToGraph asciiLower scenarioMixed (allVisible [])))"
    by (simp add: scenarioMixed_graph)
  from edges_referential_integrity [of asciiLower scenarioMixed "allVisible []"] m
  have "source ?e \<in> node_id ` set (nodes (transformDataToGraph asciiLower scenarioMixed (allVisible []))) \<and>
        target ?e \<in> node_id ` set (nodes (transformDataToGraph asciiLower scenarioMixed (allVisible [])))"
    by blast
  with m show ?thesis by simp
qed

subsection \<open>C10\<close>

text \<open>
  C10. With \<open>showClasses\<close> off, whatever the bases of the classes and the other flags, the
  built graph has no class-kind node, no method node, no node with a \<open>base-\<close> id, no
  \<open>contains\<close> edge and no \<open>inherits\<close> edge.
\<close>

theorem showClasses_off_suppresses_class_branch:
  assumes "\<not> showClasses fs"
  shows "filter (\<lambda>n. node_type n = Class) (nodes (transformDataToGraph lc props fs)) = [] \<and>
         filter (\<lambda>n. node_type n = Method) (nodes (transformDataToGraph lc props fs)) = [] \<and>
         filter (\<lambda>n. prefix ''base-'' (node_id n)) (nodes (transformDataToGraph lc props fs)) = [] \<and>
         filter (\<lambda>e. edge_type e = Contains) (edges (transformDataToGraph lc props fs)) = [] \<and>
         filter (\<lambda>e. edge_type e = Inherits) (edges (transformDataToGraph lc props fs)) = []"
proof -
  let ?G = "transformDataToGraph lc props fs"
  have n: "\<forall>n \<in> set (nodes ?G). node_type n = Function \<and> prefix ''func-'' (node_id n)"
    by (auto simp: transform_nodes buildEntities_no_classes(1) [OF assms] funcId_def)
  have "filter (\<lambda>e. edge_type e \<noteq> Calls) (edges ?G) = []"
    by (simp add: transform_edges addRelationships_edges_filter
        buildEntities_no_classes(2) [OF assms])
  then have e: "\<forall>e \<in> set (edges ?G). edge_type e = Calls"
    by (simp add: filter_empty_conv)
  have "\<forall>n \<in> set (nodes ?G). \<not> prefix ''base-'' (node_id n)"
    using n by (auto simp: prefix_def)
  with n e show ?thesis
    by (auto simp: filter_empty_conv)
qed

text \<open>C10 on a model with a function, a class and a method.\<close>

theorem showClasses_off_suppresses_class_branch_witness:
  "\<not> showClasses ((allVisible [])\<lparr>showClasses := False\<rparr>) \<and>
   filter (\<lambda>n. node_type n = Class)
     (nodes (transformDataToGraph asciiLower scenarioMixed ((allVisible [])\<lparr>showClasses := False\<rparr>))) = [] \<and>
   filter (\<lambda>e. edge_type e = Inherits)
     (edges (transformDataToGraph asciiLower scenarioMixed ((allVisible [])\<lparr>showClasses := False\<rparr>))) = [] \<and>
   map node_id (nodes (transformDataToGraph asciiLower scenarioMixed ((allVisible [])\<lparr>showClasses := False\<rparr>))) =
     [''func-0'']"
proof -
  have h: "\<not> showClasses ((allVisible [])\<lparr>showClasses := False\<rparr>)" by simp
  have "map node_id (nodes (transformDataToGraph asciiLower scenarioMixed ((allVisible [])\<lparr>showClasses := False\<rparr>))) =
     [''func-0'']"
    by code_simp
  with showClasses_off_suppresses_class_branch [OF h, of asciiLower scenarioMixed] h
  show ?thesis by blast
qed

end
